theory Spec2Isabelle
  imports Main "HOL-Library.Sublist" "HOL-Library.Char_ord" "HOL-Library.List_Lexorder"
    "HOL-Library.Product_Lexorder"
begin

section \<open>Python values and exceptions\<close>

text \<open>
  The renamer is a Python program.  Strings are modelled as \<open>string\<close>.  In the filter
  chain of the templates the character classes and case mappings of \<open>str\<close> are those of
  the ASCII repertoire (a character outside it has no case, is no digit and is no white
  space), which is what Python does on ASCII text; where the program lower-cases the names
  of files, which are arbitrary text, \<open>str.lower\<close> is a parameter of the model.  Python
  integers are \<open>int\<close>.  Every exception that the modelled code can raise is a value of
  \<open>error\<close>, and a fallible function returns \<open>error + 'a\<close>.
\<close>

datatype error = OverflowError | ValueError | FileNotFoundError | RegexError

definition bind :: "error + 'a \<Rightarrow> ('a \<Rightarrow> error + 'b) \<Rightarrow> error + 'b" where
  "bind r f = (case r of Inl e \<Rightarrow> Inl e | Inr x \<Rightarrow> f x)"

text \<open>A list comprehension over a fallible function stops at the first exception.\<close>

fun map_res :: "('a \<Rightarrow> error + 'b) \<Rightarrow> 'a list \<Rightarrow> error + 'b list" where
  "map_res f [] = Inr []"
| "map_res f (x # xs) =
     (case f x of Inl e \<Rightarrow> Inl e
      | Inr y \<Rightarrow> (case map_res f xs of Inl e \<Rightarrow> Inl e | Inr ys \<Rightarrow> Inr (y # ys)))"

text \<open>The values a named variable can hold: a string, or \<open>None\<close> (what
  \<open>Match.groupdict()\<close> stores for a group that did not take part in the match).\<close>

datatype pyval = PStr string | PNone

fun py_str :: "pyval \<Rightarrow> string" where
  "py_str (PStr s) = s"
| "py_str PNone = ''None''"

section \<open>The \<open>str\<close> methods the program uses\<close>

definition startswith :: "string \<Rightarrow> string \<Rightarrow> bool" where
  "startswith s p = prefix p s"

definition endswith :: "string \<Rightarrow> string \<Rightarrow> bool" where
  "endswith s p = suffix p s"

text \<open>\<open>sub in s\<close>\<close>

fun contains :: "string \<Rightarrow> string \<Rightarrow> bool" where
  "contains [] sub = (sub = [])"
| "contains (c # cs) sub = (prefix sub (c # cs) \<or> contains cs sub)"

definition is_space :: "char \<Rightarrow> bool" where
  "is_space c = (c \<in> set [CHR '' '', CHR 0x09, CHR 0x0A, CHR 0x0B, CHR 0x0C, CHR 0x0D,
                            CHR 0x1C, CHR 0x1D, CHR 0x1E, CHR 0x1F])"

definition is_digit :: "char \<Rightarrow> bool" where
  "is_digit c = (c \<in> set ''0123456789'')"

definition is_upper :: "char \<Rightarrow> bool" where
  "is_upper c = (c \<in> set ''ABCDEFGHIJKLMNOPQRSTUVWXYZ'')"

definition is_lower :: "char \<Rightarrow> bool" where
  "is_lower c = (c \<in> set ''abcdefghijklmnopqrstuvwxyz'')"

definition lower_char :: "char \<Rightarrow> char" where
  "lower_char c =
     (case map_of (zip ''ABCDEFGHIJKLMNOPQRSTUVWXYZ'' ''abcdefghijklmnopqrstuvwxyz'') c of
        Some d \<Rightarrow> d | None \<Rightarrow> c)"

definition upper_char :: "char \<Rightarrow> char" where
  "upper_char c =
     (case map_of (zip ''abcdefghijklmnopqrstuvwxyz'' ''ABCDEFGHIJKLMNOPQRSTUVWXYZ'') c of
        Some d \<Rightarrow> d | None \<Rightarrow> c)"

definition lower :: "string \<Rightarrow> string" where
  "lower s = map lower_char s"

definition upper :: "string \<Rightarrow> string" where
  "upper s = map upper_char s"

text \<open>\<open>str.title()\<close>: a cased character is upper-cased when the character before it is
  not cased, and lower-cased otherwise.\<close>

fun title_from :: "bool \<Rightarrow> string \<Rightarrow> string" where
  "title_from prev [] = []"
| "title_from prev (c # cs) =
     (if is_upper c \<or> is_lower c
      then (if prev then lower_char c else upper_char c) # title_from True cs
      else c # title_from False cs)"

definition title :: "string \<Rightarrow> string" where
  "title s = title_from False s"

definition lstrip :: "string \<Rightarrow> string" where
  "lstrip s = dropWhile is_space s"

definition strip :: "string \<Rightarrow> string" where
  "strip s = rev (dropWhile is_space (rev (dropWhile is_space s)))"

text \<open>\<open>s.split(sep)\<close> for a non-empty separator: the occurrences of \<open>sep\<close> are found from
  the left and do not overlap.  (Python raises on an empty separator; the program never
  passes one, and the model then returns \<open>[s]\<close>.)\<close>

fun split_from :: "string \<Rightarrow> string \<Rightarrow> string \<Rightarrow> string list" where
  "split_from sep cur [] = [cur]"
| "split_from sep cur (c # cs) =
     (if sep \<noteq> [] \<and> prefix sep (c # cs)
      then cur # split_from sep [] (drop (length sep) (c # cs))
      else split_from sep (cur @ [c]) cs)"

definition split :: "string \<Rightarrow> string \<Rightarrow> string list" where
  "split s sep = split_from sep [] s"

text \<open>\<open>s.split(c, 1)\<close> for a one-character separator: at most one cut, at the first
  occurrence.\<close>

definition split1 :: "string \<Rightarrow> char \<Rightarrow> string list" where
  "split1 s c =
     (if c \<in> set s then [takeWhile (\<lambda>x. x \<noteq> c) s, tl (dropWhile (\<lambda>x. x \<noteq> c) s)] else [s])"

text \<open>\<open>sep.join(xs)\<close>\<close>

fun join :: "string \<Rightarrow> string list \<Rightarrow> string" where
  "join sep [] = []"
| "join sep [x] = x"
| "join sep (x # y # ys) = x @ sep @ join sep (y # ys)"

text \<open>\<open>s.replace(old, new)\<close>; an empty \<open>old\<close> matches before every character and at the
  end.\<close>

fun replace_from :: "string \<Rightarrow> string \<Rightarrow> string \<Rightarrow> string" where
  "replace_from old new [] = []"
| "replace_from old new (c # cs) =
     (if old \<noteq> [] \<and> prefix old (c # cs)
      then new @ replace_from old new (drop (length old) (c # cs))
      else c # replace_from old new cs)"

definition replace :: "string \<Rightarrow> string \<Rightarrow> string \<Rightarrow> string" where
  "replace s old new =
     (if old = [] then new @ concat (map (\<lambda>c. c # new) s) else replace_from old new s)"

text \<open>\<open>s.replace(old, new, 1)\<close>: the first occurrence only.\<close>

fun replace_first :: "string \<Rightarrow> string \<Rightarrow> string \<Rightarrow> string" where
  "replace_first [] old new = (if old = [] then new else [])"
| "replace_first (c # cs) old new =
     (if prefix old (c # cs) then new @ drop (length old) (c # cs)
      else c # replace_first cs old new)"

definition isdigit :: "string \<Rightarrow> bool" where
  "isdigit s = (s \<noteq> [] \<and> list_all is_digit s)"

text \<open>\<open>str(n)\<close> for an integer: \<open>str_int\<close> is the decimal text, \<open>int_str\<close> the call,
  which can raise.\<close>

definition digit_char :: "nat \<Rightarrow> char" where
  "digit_char d = ''0123456789'' ! d"

fun str_nat :: "nat \<Rightarrow> string" where
  "str_nat n = (if n < 10 then [digit_char n] else str_nat (n div 10) @ [digit_char (n mod 10)])"

declare str_nat.simps [simp del]

text \<open>CPython 3.11 and later refuse to convert between an integer and a decimal text of
  more than 4300 digits.\<close>

definition max_str_digits :: nat where
  "max_str_digits = 4300"

definition str_int :: "int \<Rightarrow> string" where
  "str_int i = (if i < 0 then CHR ''-'' # str_nat (nat (- i)) else str_nat (nat i))"

definition int_str :: "int \<Rightarrow> error + string" where
  "int_str i =
     (if length (str_nat (nat \<bar>i\<bar>)) > max_str_digits then Inl ValueError else Inr (str_int i))"

text \<open>\<open>int(s)\<close>: the white space of C around the literal is ignored (on an ASCII string
  the separators \<open>0x1C\<close> to \<open>0x1F\<close>, which \<open>str.strip\<close> removes, are not), a sign may
  come first, and single underscores may separate digits; a literal of more than 4300
  digits is refused (the default limit of CPython 3.11 and later).  \<open>None\<close> stands for
  the \<open>ValueError\<close>.\<close>

definition is_c_space :: "char \<Rightarrow> bool" where
  "is_c_space c = (c \<in> set [CHR '' '', CHR 0x09, CHR 0x0A, CHR 0x0B, CHR 0x0C, CHR 0x0D])"

fun int_body :: "string \<Rightarrow> string option" where
  "int_body [] = None"
| "int_body [c] = (if is_digit c then Some [c] else None)"
| "int_body (c # d # cs) =
     (if \<not> is_digit c then None
      else if d = CHR ''_'' then map_option ((#) c) (int_body cs)
      else map_option ((#) c) (int_body (d # cs)))"

definition digit_val :: "char \<Rightarrow> nat" where
  "digit_val c = of_char c - 48"

fun digits_val :: "nat \<Rightarrow> string \<Rightarrow> nat" where
  "digits_val acc [] = acc"
| "digits_val acc (c # cs) = digits_val (acc * 10 + digit_val c) cs"

definition py_int :: "string \<Rightarrow> int option" where
  "py_int s =
     (case rev (dropWhile is_c_space (rev (dropWhile is_c_space s))) of
        [] \<Rightarrow> None
      | c # cs \<Rightarrow>
          (case (if c = CHR ''-'' \<or> c = CHR ''+'' then int_body cs else int_body (c # cs)) of
             None \<Rightarrow> None
           | Some ds \<Rightarrow>
               if length ds > max_str_digits then None
               else if c = CHR ''-'' then Some (- int (digits_val 0 ds))
               else Some (int (digits_val 0 ds))))"

text \<open>\<open>s.zfill(width)\<close>.  The width is converted to a C \<open>ssize_t\<close>, and a Python integer
  that does not fit raises \<open>OverflowError\<close>.  (A width that fits and cannot be allocated
  raises \<open>MemoryError\<close>; that depends on the machine and is not part of the model.)\<close>

definition maxsize :: int where
  "maxsize = 2 ^ 63 - 1"

definition zfill :: "string \<Rightarrow> int \<Rightarrow> error + string" where
  "zfill s width =
     (if width > maxsize \<or> width < - maxsize - 1 then Inl OverflowError
      else if int (length s) \<ge> width then Inr s
      else (case s of
              [] \<Rightarrow> Inr (replicate (nat width) (CHR ''0''))
            | c # cs \<Rightarrow>
                if c = CHR ''+'' \<or> c = CHR ''-''
                then Inr (c # replicate (nat width - length s) (CHR ''0'') @ cs)
                else Inr (replicate (nat width - length s) (CHR ''0'') @ s)))"

section \<open>Tool functions\<close>

text \<open>A path is the string of its parent directory and its final component.  The
  directories the program scans are absolute (\<open>Path(...).resolve()\<close>).\<close>

record path =
  parent :: string
  name :: string

definition str_path :: "path \<Rightarrow> string" where
  "str_path p = (if parent p = ''/'' then ''/'' @ name p else parent p @ ''/'' @ name p)"

text \<open>\<open>PurePath.suffixes\<close> (CPython up to 3.13): a name that ends with a dot has no
  suffix; otherwise the leading dots are dropped and every later dot starts a suffix.\<close>

definition suffixes :: "path \<Rightarrow> string list" where
  "suffixes p =
     (if endswith (name p) ''.'' then []
      else map (\<lambda>s. CHR ''.'' # s) (tl (split (dropWhile (\<lambda>c. c = CHR ''.'') (name p)) ''.'')))"

text \<open>\<open>PurePath.with_name\<close> raises \<open>ValueError\<close> when the path has no name or when the new
  name is empty, is \<open>.\<close> or holds a separator, as in CPython 3.12 and later.  (Up to 3.11
  a few names that hold a separator are accepted; a name without one is treated alike by
  all versions.)  The name of the path returned is the new name.\<close>

definition with_name :: "path \<Rightarrow> string \<Rightarrow> error + path" where
  "with_name p n =
     (if name p = [] then Inl ValueError
      else if n = [] \<or> n = ''.'' \<or> CHR ''/'' \<in> set n then Inl ValueError
      else Inr (p\<lparr>name := n\<rparr>))"

definition all_suffixes :: "path \<Rightarrow> string" where
  "all_suffixes p = concat (suffixes p)"

definition real_stem :: "path \<Rightarrow> string" where
  "real_stem p =
     (let suf = all_suffixes p; nm = name p
      in if suf \<noteq> [] then take (length nm - length suf) nm else nm)"

definition split_segments :: "string \<Rightarrow> string \<Rightarrow> string list" where
  "split_segments stem delim = (if delim \<noteq> [] then split stem delim else [stem])"

definition safe_int :: "string \<Rightarrow> int \<Rightarrow> int" where
  "safe_int s dflt = (case py_int s of Some i \<Rightarrow> i | None \<Rightarrow> dflt)"

section \<open>Configuration and plan\<close>

record Rules =
  delimiter :: string
  regex :: "string option"
  recursive :: bool
  include_globs :: "string list"
  exclude_globs :: "string list"
  exts :: "string list"
  template :: string
  slice_joiner :: string
  conflict :: string
  suffix_sep :: string
  dry_run :: bool
  preview_limit :: int
  export_plan :: "path option"
  sort_key :: string
  sort_order :: string
  seq_start :: int
  seq_step :: int
  seq_pad :: int

record PlanItem =
  src :: path
  dst :: path
  changed :: bool
  reason :: string

section \<open>Template rendering engine\<close>

text \<open>One round of the loop of \<open>_apply_filters\<close>: \<open>part\<close> is one piece of the filter
  chain, \<open>t\<close> the string accumulated so far.\<close>

definition apply_filter :: "string \<Rightarrow> string \<Rightarrow> error + string" where
  "apply_filter part0 t =
     (let part = strip part0 in
      if part = [] then Inr t
      else if part = ''lower'' then Inr (lower t)
      else if part = ''upper'' then Inr (upper t)
      else if part = ''title'' then Inr (title t)
      else if part = ''strip'' then Inr (strip t)
      else if startswith part ''pad='' \<or> startswith part ''zfill='' then
        (let n = safe_int (split1 part (CHR ''='') ! 1) 0
         in if n > 0 \<and> isdigit t then zfill t n else Inr t)
      else if startswith part ''prefix='' then Inr (split1 part (CHR ''='') ! 1 @ t)
      else if startswith part ''suffix='' then Inr (t @ split1 part (CHR ''='') ! 1)
      else if startswith part ''replace='' then
        (let body = split1 part (CHR ''='') ! 1
         in if CHR '':'' \<in> set body
            then (let old = split1 body (CHR '':'') ! 0; new = split1 body (CHR '':'') ! 1
                  in Inr (replace t old new))
            else Inr t)
      else Inr t)"

fun apply_parts :: "string list \<Rightarrow> string \<Rightarrow> error + string" where
  "apply_parts [] t = Inr t"
| "apply_parts (part # parts) t =
     (case apply_filter part t of Inl e \<Rightarrow> Inl e | Inr t' \<Rightarrow> apply_parts parts t')"

definition apply_filters :: "string \<Rightarrow> string option \<Rightarrow> error + string" where
  "apply_filters val filters =
     (case filters of
        None \<Rightarrow> Inr val
      | Some fs \<Rightarrow> if strip fs = [] then Inr val else apply_parts (split fs ''|'') val)"

definition slice_join :: "string list \<Rightarrow> string \<Rightarrow> string option \<Rightarrow> error + string" where
  "slice_join items joiner filters =
     bind (map_res (\<lambda>x. apply_filters x filters) items) (\<lambda>proc. Inr (join joiner proc))"

text \<open>The inner function \<open>repl\<close> of \<open>render_template\<close>, applied to the two groups of one
  match of the placeholder pattern.\<close>

definition repl ::
  "(string \<rightharpoonup> pyval) \<Rightarrow> string list \<Rightarrow> string \<Rightarrow> string \<Rightarrow> string option \<Rightarrow> error + string"
where
  "repl vars_map segs joiner key0 filters =
     (let key = strip key0; len = int (length segs) in
      case vars_map key of
        Some v \<Rightarrow> apply_filters (py_str v) filters
      | None \<Rightarrow>
          if endswith key ''+'' then
            (let base = butlast key; idx = safe_int base 0 in
             if idx = 0 then Inr []
             else (let idx = (if idx < 0 then len + 1 + idx else idx); start = max 1 idx in
                   if start > len then Inr []
                   else slice_join (drop (nat (start - 1)) segs) joiner filters))
          else if CHR '':'' \<in> set key then
            (let s = safe_int (split1 key (CHR '':'') ! 0) 0;
                 e = safe_int (split1 key (CHR '':'') ! 1) 0 in
             if s = 0 \<or> e = 0 then Inr []
             else (let s = (if s < 0 then len + 1 + s else s);
                       e = (if e < 0 then len + 1 + e else e);
                       s = max 1 s; e = min len e in
                   if s > e then Inr []
                   else slice_join (take (nat e - nat (s - 1)) (drop (nat (s - 1)) segs))
                          joiner filters))
          else
            (let idx = safe_int key 0 in
             if idx \<noteq> 0 then
               (let idx = (if idx < 0 then len + 1 + idx else idx) in
                if 1 \<le> idx \<and> idx \<le> len then apply_filters (segs ! nat (idx - 1)) filters
                else Inr [])
             else Inr []))"

text \<open>The pattern \<open>_PLACEHOLDER\<close>, tried right after an opening brace: the key is the
  longest run of characters other than \<open>|\<close> and \<open>}\<close> and must not be empty; then either the
  closing brace follows, or a bar, a non-empty run of characters other than \<open>}\<close> (the
  filters) and the closing brace.  Backtracking cannot produce any other match.  The result
  holds the two groups and the text after the match.\<close>

definition match_placeholder :: "string \<Rightarrow> (string \<times> string option \<times> string) option" where
  "match_placeholder cs =
     (let key = takeWhile (\<lambda>c. c \<noteq> CHR ''|'' \<and> c \<noteq> CHR ''}'') cs;
          r = dropWhile (\<lambda>c. c \<noteq> CHR ''|'' \<and> c \<noteq> CHR ''}'') cs in
      if key = [] then None
      else (case r of
              [] \<Rightarrow> None
            | c # r' \<Rightarrow>
                if c = CHR ''}'' then Some (key, None, r')
                else (let fs = takeWhile (\<lambda>c. c \<noteq> CHR ''}'') r';
                          r2 = dropWhile (\<lambda>c. c \<noteq> CHR ''}'') r' in
                      if fs = [] then None
                      else (case r2 of [] \<Rightarrow> None | c2 # r3 \<Rightarrow> Some (key, Some fs, r3)))))"

lemma match_placeholder_SomeD:
  assumes "match_placeholder cs = Some (key, fs, rest)"
  shows "\<exists>c r'. dropWhile (\<lambda>c. c \<noteq> CHR ''|'' \<and> c \<noteq> CHR ''}'') cs = c # r' \<and>
           (rest = r' \<or> (\<exists>c2. dropWhile (\<lambda>c. c \<noteq> CHR ''}'') r' = c2 # rest))"
  using assms unfolding match_placeholder_def Let_def
  by (simp split: if_splits list.splits)

lemma match_placeholder_shorter:
  assumes "match_placeholder cs = Some (key, fs, rest)"
  shows "length rest < length cs"
proof -
  obtain c r' where r: "dropWhile (\<lambda>c. c \<noteq> CHR ''|'' \<and> c \<noteq> CHR ''}'') cs = c # r'"
    and d: "rest = r' \<or> (\<exists>c2. dropWhile (\<lambda>c. c \<noteq> CHR ''}'') r' = c2 # rest)"
    using match_placeholder_SomeD [OF assms] by blast
  have l1: "length r' < length cs"
    using length_dropWhile_le [of "\<lambda>c. c \<noteq> CHR ''|'' \<and> c \<noteq> CHR ''}''" cs] r by simp
  from d show ?thesis
  proof
    assume "rest = r'"
    then show ?thesis using l1 by simp
  next
    assume "\<exists>c2. dropWhile (\<lambda>c. c \<noteq> CHR ''}'') r' = c2 # rest"
    then obtain c2 where "dropWhile (\<lambda>c. c \<noteq> CHR ''}'') r' = c2 # rest" ..
    then have "length rest < length r'"
      using length_dropWhile_le [of "\<lambda>c. c \<noteq> CHR ''}''" r'] by simp
    then show ?thesis using l1 by simp
  qed
qed

text \<open>\<open>_PLACEHOLDER.sub(repl, template)\<close>: the matches are found from the left, do not
  overlap, and each is replaced by what \<open>rp\<close> returns for its groups; an exception raised
  for a match ends the substitution.\<close>

function sub :: "(string \<Rightarrow> string option \<Rightarrow> error + string) \<Rightarrow> string \<Rightarrow> error + string" where
  "sub rp [] = Inr []"
| "sub rp (c # cs) =
     (if c = CHR ''{'' then
        (case match_placeholder cs of
           Some (key, fs, rest) \<Rightarrow>
             (case rp key fs of
                Inl e \<Rightarrow> Inl e
              | Inr r \<Rightarrow> (case sub rp rest of Inl e \<Rightarrow> Inl e | Inr t \<Rightarrow> Inr (r @ t)))
         | None \<Rightarrow> (case sub rp cs of Inl e \<Rightarrow> Inl e | Inr t \<Rightarrow> Inr (c # t)))
      else (case sub rp cs of Inl e \<Rightarrow> Inl e | Inr t \<Rightarrow> Inr (c # t)))"
  by pat_completeness auto
termination
  by (relation "measure (\<lambda>(rp, s). length s)") (auto dest: match_placeholder_shorter)

definition render_template ::
  "string \<Rightarrow> (string \<rightharpoonup> pyval) \<Rightarrow> string list \<Rightarrow> string \<Rightarrow> error + string" where
  "render_template tpl vars_map segs joiner = sub (repl vars_map segs joiner) tpl"

section \<open>Parsing and planning\<close>

text \<open>
  The collaborators of the planner that are not code of the program are parameters of the
  model: \<open>re_match pattern stem\<close> stands for \<open>re.match(pattern, stem)\<close> and returns the
  \<open>groupdict()\<close> of the match (every named group of the pattern, with \<open>None\<close> for a group
  that did not take part), \<open>None\<close> when there is no match, or the exception of an invalid
  pattern; \<open>path_match\<close> stands for \<open>Path.match\<close>, which raises on an empty pattern;
  \<open>isoformat t\<close> stands for \<open>datetime.fromtimestamp(t).isoformat(timespec="seconds")\<close>,
  which raises for a time stamp outside the range of \<open>datetime\<close>; \<open>str_lower\<close> stands for
  \<open>str.lower()\<close> on the names of files and on the entries of the allow-list, which are
  arbitrary text, so that nothing is assumed about it.
  A file found by \<open>collect_files\<close> comes with the two time stamps that \<open>stat\<close> reports
  for it; the directory does not change while the plan is built.
\<close>

type_synonym groupdict = "(string \<times> string option) list"

record env =
  re_match :: "string \<Rightarrow> string \<Rightarrow> error + groupdict option"
  path_match :: "path \<Rightarrow> string \<Rightarrow> error + bool"
  isoformat :: "int \<Rightarrow> error + string"
  str_lower :: "string \<Rightarrow> string"

record entry =
  path_of :: path
  st_mtime :: int
  st_ctime :: int

definition parse_with_regex :: "env \<Rightarrow> string \<Rightarrow> string \<Rightarrow> error + groupdict" where
  "parse_with_regex ev stem pattern =
     (case re_match ev pattern stem of
        Inl e \<Rightarrow> Inl e
      | Inr m \<Rightarrow> (case m of Some g \<Rightarrow> Inr g | None \<Rightarrow> Inr []))"

text \<open>\<open>vars_map.update(g)\<close>\<close>

definition update_vars :: "(string \<rightharpoonup> pyval) \<Rightarrow> groupdict \<Rightarrow> (string \<rightharpoonup> pyval)" where
  "update_vars vars_map g =
     vars_map ++ map_of (map (\<lambda>(k, v). (k, case v of None \<Rightarrow> PNone | Some s \<Rightarrow> PStr s)) g)"

text \<open>\<open>any(path.match(g) for g in globs)\<close>\<close>

fun any_match :: "env \<Rightarrow> path \<Rightarrow> string list \<Rightarrow> error + bool" where
  "any_match ev p [] = Inr False"
| "any_match ev p (g # gs) =
     (case path_match ev p g of
        Inl e \<Rightarrow> Inl e
      | Inr b \<Rightarrow> if b then Inr True else any_match ev p gs)"

definition should_take :: "env \<Rightarrow> path \<Rightarrow> 'a Rules_scheme \<Rightarrow> error + bool" where
  "should_take ev p rules =
     (if exts rules \<noteq> [] \<and> \<not> list_ex (\<lambda>ext. endswith (str_lower ev (str_path p)) (str_lower ev ext))
               (exts rules)
      then Inr False
      else (case (if include_globs rules \<noteq> [] then any_match ev p (include_globs rules)
                  else Inr True) of
              Inl e \<Rightarrow> Inl e
            | Inr inc \<Rightarrow>
                if \<not> inc then Inr False
                else (case (if exclude_globs rules \<noteq> [] then any_match ev p (exclude_globs rules)
                            else Inr False) of
                        Inl e \<Rightarrow> Inl e
                      | Inr exc \<Rightarrow> if exc then Inr False else Inr True)))"

text \<open>\<open>sorted(xs, key=key, reverse=reverse)\<close>: the sort is stable in both directions.\<close>

definition sorted_py :: "('a \<Rightarrow> 'k::linorder) \<Rightarrow> bool \<Rightarrow> 'a list \<Rightarrow> 'a list" where
  "sorted_py key reverse xs = (if reverse then rev (linorder_class.sort_key key (rev xs))
      else linorder_class.sort_key key xs)"

definition sort_files :: "env \<Rightarrow> entry list \<Rightarrow> string \<Rightarrow> string \<Rightarrow> entry list" where
  "sort_files ev files skey sorder =
     (let reverse = (sorder = ''desc'') in
      if skey = ''mtime''
      then sorted_py (\<lambda>p. (st_mtime p, str_lower ev (name (path_of p)))) reverse files
      else if skey = ''ctime''
      then sorted_py (\<lambda>p. (st_ctime p, str_lower ev (name (path_of p)))) reverse files
      else sorted_py (\<lambda>p. str_lower ev (name (path_of p))) reverse files)"

text \<open>The body of the loop of \<open>build_plan\<close> for a file \<open>p\<close> that passed the filters, at
  the sequence value \<open>seq_value\<close>.\<close>

definition make_vars :: "env \<Rightarrow> 'a Rules_scheme \<Rightarrow> entry \<Rightarrow> int \<Rightarrow> error + (string \<rightharpoonup> pyval)" where
  "make_vars ev rules p seq_value =
     (let stem = real_stem (path_of p); ext = all_suffixes (path_of p) in
      case int_str seq_value of
        Inl e \<Rightarrow> Inl e
      | Inr seq_raw \<Rightarrow>
      (case zfill seq_raw (max 0 (seq_pad rules)) of
        Inl e \<Rightarrow> Inl e
      | Inr seq \<Rightarrow>
          (case isoformat ev (st_mtime p) of
             Inl e \<Rightarrow> Inl e
           | Inr mtime \<Rightarrow>
               (case isoformat ev (st_ctime p) of
                  Inl e \<Rightarrow> Inl e
                | Inr ctime \<Rightarrow>
                    (let vars_map = [''stem'' \<mapsto> PStr stem, ''ext'' \<mapsto> PStr ext,
                                     ''name'' \<mapsto> PStr (name (path_of p)),
                                     ''seq'' \<mapsto> PStr seq,
                                     ''seq_raw'' \<mapsto> PStr seq_raw,
                                     ''mtime'' \<mapsto> PStr mtime, ''ctime'' \<mapsto> PStr ctime] in
                     case regex rules of
                       None \<Rightarrow> Inr vars_map
                     | Some pattern \<Rightarrow>
                         if pattern = [] then Inr vars_map
                         else (case parse_with_regex ev stem pattern of
                                 Inl e \<Rightarrow> Inl e
                               | Inr g \<Rightarrow> Inr (update_vars vars_map g)))))))"

definition plan_item :: "env \<Rightarrow> 'a Rules_scheme \<Rightarrow> entry \<Rightarrow> int \<Rightarrow> error + PlanItem" where
  "plan_item ev rules p seq_value =
     (let stem = real_stem (path_of p); ext = all_suffixes (path_of p);
          segs = split_segments stem (delimiter rules) in
      case make_vars ev rules p seq_value of
        Inl e \<Rightarrow> Inl e
      | Inr vars_map \<Rightarrow>
          (case render_template (template rules) vars_map segs (slice_joiner rules) of
             Inl e \<Rightarrow> Inl e
           | Inr new_stem \<Rightarrow>
               (let new_name = (if contains (template rules) ''{ext}'' then new_stem
                                else new_stem @ ext);
                    chg = (new_name \<noteq> name (path_of p)) in
                case with_name (path_of p) new_name of
                  Inl e \<Rightarrow> Inl e
                | Inr d \<Rightarrow>
                    Inr \<lparr>src = path_of p, dst = d, changed = chg,
                         reason = (if chg then ''ok'' else ''no-change'')\<rparr>)))"

fun build_loop :: "env \<Rightarrow> 'a Rules_scheme \<Rightarrow> entry list \<Rightarrow> int \<Rightarrow> error + PlanItem list" where
  "build_loop ev rules [] seq_value = Inr []"
| "build_loop ev rules (p # ps) seq_value =
     (if startswith (name (path_of p)) ''__tmp_rename__'' then build_loop ev rules ps seq_value
      else (case should_take ev (path_of p) rules of
              Inl e \<Rightarrow> Inl e
            | Inr take_it \<Rightarrow>
                if \<not> take_it then build_loop ev rules ps seq_value
                else (case plan_item ev rules p seq_value of
                        Inl e \<Rightarrow> Inl e
                      | Inr it \<Rightarrow>
                          (case build_loop ev rules ps (seq_value + seq_step rules) of
                             Inl e \<Rightarrow> Inl e
                           | Inr plan \<Rightarrow> Inr (it # plan)))))"

text \<open>\<open>files\<close> is what \<open>collect_files\<close> returns for the root directory.\<close>

definition build_plan :: "env \<Rightarrow> entry list \<Rightarrow> 'a Rules_scheme \<Rightarrow> error + PlanItem list" where
  "build_plan ev files rules =
     (case build_loop ev rules (sort_files ev files (sort_key rules) (sort_order rules))
             (seq_start rules) of
        Inl e \<Rightarrow> Inl e
      | Inr plan \<Rightarrow>
          if preview_limit rules > 0 then Inr (take (nat (preview_limit rules)) plan)
          else Inr plan)"

section \<open>Conflict resolution\<close>

lemma digit_char_inj: "a < 10 \<Longrightarrow> b < 10 \<Longrightarrow> digit_char a = digit_char b \<Longrightarrow> a = b"
proof -
  assume a: "a < 10" and b: "b < 10" and e: "digit_char a = digit_char b"
  have d: "distinct ''0123456789''" by simp
  have "a < length ''0123456789''" "b < length ''0123456789''" using a b by simp_all
  then show ?thesis using e d by (simp add: digit_char_def nth_eq_iff_index_eq)
qed

lemma lower_digit_char: "d < 10 \<Longrightarrow> lower_char (digit_char d) = digit_char d"
proof -
  assume "d < 10"
  then have "d < length ''0123456789''" by simp
  then have "digit_char d \<in> set ''0123456789''" unfolding digit_char_def by (rule nth_mem)
  moreover have "\<forall>c \<in> set ''0123456789''. lower_char c = c" by (simp add: lower_char_def)
  ultimately show ?thesis by blast
qed

lemma str_nat_ne: "str_nat n \<noteq> []"
  by (subst str_nat.simps) simp

lemma str_nat_inj: "str_nat n = str_nat m \<Longrightarrow> n = m"
proof (induction n arbitrary: m rule: str_nat.induct)
  case (1 n)
  show ?case
  proof (cases "n < 10")
    case True
    then have sn: "str_nat n = [digit_char n]" by (subst str_nat.simps) simp
    show ?thesis
    proof (cases "m < 10")
      case m: True
      then have "str_nat m = [digit_char m]" by (subst str_nat.simps) simp
      then show ?thesis using sn 1(2) True m digit_char_inj by auto
    next
      case m: False
      then have "str_nat m = str_nat (m div 10) @ [digit_char (m mod 10)]"
        by (subst str_nat.simps) simp
      then show ?thesis using sn 1(2) str_nat_ne [of "m div 10"] by auto
    qed
  next
    case False
    then have sn: "str_nat n = str_nat (n div 10) @ [digit_char (n mod 10)]"
      by (subst str_nat.simps) simp
    show ?thesis
    proof (cases "m < 10")
      case m: True
      then have "str_nat m = [digit_char m]" by (subst str_nat.simps) simp
      then show ?thesis using sn 1(2) str_nat_ne [of "n div 10"] by auto
    next
      case m: False
      then have sm: "str_nat m = str_nat (m div 10) @ [digit_char (m mod 10)]"
        by (subst str_nat.simps) simp
      from sn sm 1(2) have e1: "str_nat (n div 10) = str_nat (m div 10)"
        and e2: "digit_char (n mod 10) = digit_char (m mod 10)" by auto
      have d: "n div 10 = m div 10" using 1(1) [OF False e1] .
      have "n mod 10 = m mod 10" using e2 digit_char_inj [of "n mod 10" "m mod 10"] by simp
      then show ?thesis using d by (metis div_mult_mod_eq)
    qed
  qed
qed

text \<open>The name \<open>f"{stem}{rules.suffix_sep}{n}{ext}"\<close> that the loop of \<open>dedupe\<close> tries at
  counter \<open>n\<close>.\<close>

definition suffixed :: "string \<Rightarrow> string \<Rightarrow> string \<Rightarrow> nat \<Rightarrow> string" where
  "suffixed stem sep ext n = stem @ sep @ str_nat n @ ext"

text \<open>The \<open>while\<close> loop of \<open>dedupe\<close>: \<open>lw\<close> is \<open>str.lower\<close>, \<open>seen\<close> holds the claimed
  names, and the loop returns the final counter.  Nothing in the loop bounds the counter, so
  the result is optional: \<open>None\<close> is a loop that does not end.\<close>

partial_function (option) bump ::
  "(string \<Rightarrow> string) \<Rightarrow> string list \<Rightarrow> string \<Rightarrow> string \<Rightarrow> string \<Rightarrow> nat \<Rightarrow> string \<Rightarrow> nat option"
where
  "bump lw seen stem sep ext n base =
     (if base \<in> set seen
      then bump lw seen stem sep ext (n + 1) (lw (suffixed stem sep ext (n + 1)))
      else Some n)"

fun dedupe_loop ::
  "env \<Rightarrow> 'a Rules_scheme \<Rightarrow> string list \<Rightarrow> PlanItem list \<Rightarrow> (error + PlanItem list) option"
where
  "dedupe_loop ev rules seen [] = Some (Inr [])"
| "dedupe_loop ev rules seen (it # its) =
     (if \<not> changed it then
        (case dedupe_loop ev rules seen its of
           None \<Rightarrow> None
         | Some (Inl e) \<Rightarrow> Some (Inl e)
         | Some (Inr out) \<Rightarrow> Some (Inr (it # out)))
      else
        (let cand = dst it; stem = real_stem cand; ext = all_suffixes cand in
         case bump (str_lower ev) seen stem (suffix_sep rules) ext 0 (str_lower ev (name cand)) of
           None \<Rightarrow> None
         | Some n \<Rightarrow>
             (case (if n = 0 then Inr cand
                    else with_name cand (suffixed stem (suffix_sep rules) ext n)) of
                Inl e \<Rightarrow> Some (Inl e)
              | Inr final \<Rightarrow>
                  (case dedupe_loop ev rules (str_lower ev (name final) # seen) its of
                     None \<Rightarrow> None
                   | Some (Inl e) \<Rightarrow> Some (Inl e)
                   | Some (Inr out) \<Rightarrow>
                       Some (Inr (\<lparr>src = src it, dst = final,
                                   changed = (name final \<noteq> name (src it)),
                                   reason = (if n > 0 then ''dedup-suffix'' else reason it)\<rparr>
                                  # out))))))"

definition dedupe ::
  "env \<Rightarrow> PlanItem list \<Rightarrow> 'a Rules_scheme \<Rightarrow> (error + PlanItem list) option" where
  "dedupe ev plan rules =
     (if conflict rules \<noteq> ''suffix'' then Some (Inr plan) else dedupe_loop ev rules [] plan)"

text \<open>The lower-cased destinations of the items of \<open>out\<close> that stand for an item of
  \<open>plan\<close> marked as changed: the names that \<open>dedupe\<close> has put into \<open>seen\<close>.\<close>

definition claimed :: "env \<Rightarrow> PlanItem list \<Rightarrow> PlanItem list \<Rightarrow> string list" where
  "claimed ev plan out =
     map (\<lambda>(a, b). str_lower ev (name (dst b))) (filter (\<lambda>(a, b). changed a) (zip plan out))"

section \<open>Two-phase renaming\<close>

text \<open>
  The directory tree is a map from the paths of the files to their contents.
  \<open>Path.rename\<close> is the POSIX one: it raises when the source is missing and silently
  replaces a file at the target.  Directories are not part of the state: the parent of
  every target exists, so that \<open>mkdir(parents=True, exist_ok=True)\<close> does nothing.  The
  lines of the log are values of \<open>log\<close> holding the names that the source formats into the
  text.  \<open>token\<close> stands for the eight hexadecimal digits taken from \<open>uuid.uuid4()\<close>.
\<close>

type_synonym tree = "path \<rightharpoonup> string"

datatype log =
    SkipNoChange string
  | SkipExists string string
  | FailPhase1 string string error
  | Done string string
  | FailPhase2 string string error

record exec =
  tree_now :: tree
  temp_pairs :: "(path \<times> path) list"
  logs :: "log list"
  ok :: nat
  skipped :: nat

definition exists_path :: "tree \<Rightarrow> path \<Rightarrow> bool" where
  "exists_path t p = (t p \<noteq> None)"

definition rename :: "tree \<Rightarrow> path \<Rightarrow> path \<Rightarrow> error + tree" where
  "rename t a b =
     (case t a of None \<Rightarrow> Inl FileNotFoundError | Some c \<Rightarrow> Inr ((t(a := None))(b \<mapsto> c)))"

text \<open>Phase 1: source to temporary name.  The temporary path is built outside the
  \<open>try\<close>, so an exception of \<open>with_name\<close> leaves the function.\<close>

fun phase1 :: "string \<Rightarrow> PlanItem list \<Rightarrow> exec \<Rightarrow> error + exec" where
  "phase1 tmp_tag [] st = Inr st"
| "phase1 tmp_tag (it # its) st =
     (if \<not> changed it then
        phase1 tmp_tag its
          (st\<lparr>skipped := skipped st + 1, logs := logs st @ [SkipNoChange (name (src it))]\<rparr>)
      else if exists_path (tree_now st) (dst it) then
        phase1 tmp_tag its
          (st\<lparr>skipped := skipped st + 1,
              logs := logs st @ [SkipExists (name (src it)) (name (dst it))]\<rparr>)
      else
        (case with_name (src it) (tmp_tag @ name (src it)) of
           Inl e \<Rightarrow> Inl e
         | Inr tmp \<Rightarrow>
             (case rename (tree_now st) (src it) tmp of
                Inr t' \<Rightarrow>
                  phase1 tmp_tag its
                    (st\<lparr>tree_now := t', temp_pairs := temp_pairs st @ [(tmp, dst it)]\<rparr>)
              | Inl e \<Rightarrow>
                  phase1 tmp_tag its
                    (st\<lparr>skipped := skipped st + 1,
                        logs := logs st @ [FailPhase1 (name (src it)) (name (dst it)) e]\<rparr>))))"

text \<open>Phase 2: temporary name to target.\<close>

fun phase2 :: "string \<Rightarrow> (path \<times> path) list \<Rightarrow> exec \<Rightarrow> exec" where
  "phase2 tmp_tag [] st = st"
| "phase2 tmp_tag ((tmp, d) # pairs) st =
     (case rename (tree_now st) tmp d of
        Inr t' \<Rightarrow>
          phase2 tmp_tag pairs
            (st\<lparr>tree_now := t', ok := ok st + 1,
                logs := logs st @ [Done (replace_first (name tmp) tmp_tag []) (name d)]\<rparr>)
      | Inl e \<Rightarrow>
          phase2 tmp_tag pairs (st\<lparr>logs := logs st @ [FailPhase2 (name tmp) (name d) e]\<rparr>))"

definition two_phase_rename :: "string \<Rightarrow> tree \<Rightarrow> PlanItem list \<Rightarrow> error + exec" where
  "two_phase_rename token t to_apply =
     (let tmp_tag = ''__tmp_rename__'' @ token @ ''__'' in
      case phase1 tmp_tag to_apply
             \<lparr>tree_now = t, temp_pairs = [], logs = [], ok = 0, skipped = 0\<rparr> of
        Inl e \<Rightarrow> Inl e
      | Inr st \<Rightarrow> Inr (phase2 tmp_tag (temp_pairs st) st))"

text \<open>The items that \<open>run_cli\<close> hands to the executor.\<close>

definition to_apply_of :: "PlanItem list \<Rightarrow> PlanItem list" where
  "to_apply_of plan = filter changed plan"

text \<open>A file passes the filtering of \<open>build_plan\<close> when the loop reaches the body for
  it.\<close>

definition passes :: "env \<Rightarrow> 'a Rules_scheme \<Rightarrow> entry \<Rightarrow> bool" where
  "passes ev rules p =
     (\<not> startswith (name (path_of p)) ''__tmp_rename__'' \<and> should_take ev (path_of p) rules = Inr True)"

text \<open>The defaults of the fields of \<open>Rules\<close>.\<close>

definition default_rules :: Rules where
  "default_rules =
     \<lparr>delimiter = ''-'', regex = None, recursive = False, include_globs = [],
      exclude_globs = [], exts = [], template = ''{stem}'', slice_joiner = ''-'',
      conflict = ''skip'', suffix_sep = ''_'', dry_run = True, preview_limit = 0,
      export_plan = None, sort_key = ''name'', sort_order = ''asc'', seq_start = 1,
      seq_step = 1, seq_pad = 4\<rparr>"

section \<open>Properties of the tool functions\<close>

lemma split_from_ne: "split_from sep cur s \<noteq> []"
  by (induction sep cur s rule: split_from.induct) auto

lemma join_Cons: "ys \<noteq> [] \<Longrightarrow> join sep (x # ys) = x @ sep @ join sep ys"
  by (cases ys) auto

lemma join_split_from: "join sep (split_from sep cur s) = cur @ s"
proof (induction sep cur s rule: split_from.induct)
  case (1 sep cur)
  then show ?case by simp
next
  case (2 sep cur c cs)
  show ?case
  proof (cases "sep \<noteq> [] \<and> prefix sep (c # cs)")
    case True
    then obtain r where r: "c # cs = sep @ r" by (auto simp: prefix_def)
    have "join sep (split_from sep cur (c # cs)) =
          cur @ sep @ join sep (split_from sep [] (drop (length sep) (c # cs)))"
      using True by (simp add: join_Cons split_from_ne del: join.simps)
    also have "\<dots> = cur @ sep @ drop (length sep) (c # cs)"
      using 2(1)[OF True] by simp
    also have "\<dots> = cur @ c # cs" using r by simp
    finally show ?thesis .
  next
    case False
    then show ?thesis using 2(2) by auto
  qed
qed

text \<open>
  C9.  For every stem \<open>S\<close> and every non-empty delimiter \<open>D\<close>, splitting \<open>S\<close> on \<open>D\<close> into
  segments and joining the segments with \<open>D\<close> gives \<open>S\<close> back.
\<close>

theorem split_join_roundtrip:
  "D \<noteq> [] \<Longrightarrow> join D (split_segments S D) = S"
  by (simp add: split_segments_def split_def join_split_from)

theorem split_join_roundtrip_witness:
  "''--'' \<noteq> [] \<and> split_segments ''a--b---c'' ''--'' = [''a'', ''b'', ''-c'']
   \<and> join ''--'' (split_segments ''a--b---c'' ''--'') = ''a--b---c''"
  using split_join_roundtrip [of "''--''" "''a--b---c''"]
  by (simp add: split_segments_def split_def)

section \<open>Properties of the template renderer\<close>

lemma replicate_numeral: "replicate (numeral k) x = x # replicate (pred_numeral k) x"
  by (simp add: numeral_eq_Suc)

lemmas str_ev = strip_def is_space_def is_c_space_def max_str_digits_def is_digit_def digit_val_def
  safe_int_def py_int_def
  startswith_def endswith_def suffix_def lower_def upper_def lower_char_def upper_char_def
  title_def is_upper_def is_lower_def split_def split1_def isdigit_def replace_def
  replicate_numeral

lemmas tpl_ev = render_template_def repl_def match_placeholder_def apply_filters_def
  apply_filter_def slice_join_def bind_def Let_def zfill_def maxsize_def

lemma strip_m1: "strip ''-1'' = ''-1''" by (simp add: strip_def is_space_def)
lemma strip_0: "strip ''0'' = ''0''" by (simp add: strip_def is_space_def)
lemma safe_int_m1: "safe_int ''-1'' 0 = -1"
  by (simp add: safe_int_def py_int_def is_c_space_def max_str_digits_def is_digit_def digit_val_def)
lemma safe_int_0: "safe_int ''0'' 0 = 0"
  by (simp add: safe_int_def py_int_def is_c_space_def max_str_digits_def is_digit_def digit_val_def)

lemma repl_last:
  assumes "segs \<noteq> []" "vars_map ''-1'' = None"
  shows "repl vars_map segs joiner ''-1'' filters = apply_filters (last segs) filters"
proof -
  have n: "nat (int (length segs) - 1) = length segs - Suc 0" by simp
  have "Suc 0 \<le> length segs" using assms(1) by (cases segs) auto
  then show ?thesis
    using assms(2)
    by (simp add: repl_def strip_m1 safe_int_m1 endswith_def suffix_def Let_def n
          last_conv_nth [OF assms(1)])
qed

lemma repl_zero:
  assumes "vars_map ''0'' = None"
  shows "repl vars_map segs joiner ''0'' filters = Inr []"
  using assms by (simp add: repl_def strip_0 safe_int_0 endswith_def suffix_def Let_def)

lemma takeWhile_closing: "CHR ''}'' \<notin> set fs \<Longrightarrow> takeWhile (\<lambda>c. c \<noteq> CHR ''}'') (fs @ CHR ''}'' # r) = fs"
  by (induction fs) auto

lemma dropWhile_closing: "CHR ''}'' \<notin> set fs \<Longrightarrow> dropWhile (\<lambda>c. c \<noteq> CHR ''}'') (fs @ CHR ''}'' # r) = CHR ''}'' # r"
  by (induction fs) auto

lemma sub_single:
  assumes "match_placeholder cs = Some (key, fs, [])"
  shows "sub rp (CHR ''{'' # cs) = rp key fs"
  using assms by (cases "rp key fs") simp_all

lemma render_single_filtered:
  assumes "fs \<noteq> []" "CHR ''}'' \<notin> set fs" "key \<noteq> []" "CHR ''|'' \<notin> set key" "CHR ''}'' \<notin> set key"
  shows "render_template (''{'' @ key @ ''|'' @ fs @ ''}'') vars_map segs joiner
         = repl vars_map segs joiner key (Some fs)"
proof -
  have t: "takeWhile (\<lambda>c. c \<noteq> CHR ''|'' \<and> c \<noteq> CHR ''}'') (key @ CHR ''|'' # fs @ ''}'') = key"
    using assms(4,5) by (induction key) auto
  have d: "dropWhile (\<lambda>c. c \<noteq> CHR ''|'' \<and> c \<noteq> CHR ''}'') (key @ CHR ''|'' # fs @ ''}'') = CHR ''|'' # fs @ ''}''"
    using assms(4,5) by (induction key) auto
  have "match_placeholder (key @ ''|'' @ fs @ ''}'') = Some (key, Some fs, [])"
    using assms(1,3) takeWhile_closing [OF assms(2), of "[]"] dropWhile_closing [OF assms(2), of "[]"]
    by (simp add: match_placeholder_def t d)
  then show ?thesis
    using sub_single [of "key @ ''|'' @ fs @ ''}''" key "Some fs" "repl vars_map segs joiner"]
    by (simp add: render_template_def)
qed

lemma render_single_plain:
  assumes "key \<noteq> []" "CHR ''|'' \<notin> set key" "CHR ''}'' \<notin> set key"
  shows "render_template (''{'' @ key @ ''}'') vars_map segs joiner
         = repl vars_map segs joiner key None"
proof -
  have t: "takeWhile (\<lambda>c. c \<noteq> CHR ''|'' \<and> c \<noteq> CHR ''}'') (key @ ''}'') = key"
    using assms(2,3) by (induction key) auto
  have d: "dropWhile (\<lambda>c. c \<noteq> CHR ''|'' \<and> c \<noteq> CHR ''}'') (key @ ''}'') = ''}''"
    using assms(2,3) by (induction key) auto
  have "match_placeholder (key @ ''}'') = Some (key, None, [])"
    using assms(1) by (simp add: match_placeholder_def t d)
  then show ?thesis
    using sub_single [of "key @ ''}''" key None "repl vars_map segs joiner"]
    by (simp add: render_template_def)
qed

text \<open>
  C8.  For a segment list with at least one segment and every filter chain, the key \<open>-1\<close>
  resolves to the last segment, to which the filters are then applied, and the key \<open>0\<close>
  resolves to the empty string.  The named variables are looked up first, so the two keys
  must not be names of variables; the names the planner defines are identifiers.  The
  statement is given for the function called on a match and for the templates \<open>{-1}\<close>,
  \<open>{0}\<close>, \<open>{-1|fs}\<close> and \<open>{0|fs}\<close>.
\<close>

theorem key_minus_one_and_zero:
  assumes "segs \<noteq> []" and "vars_map ''-1'' = None" and "vars_map ''0'' = None"
  shows "repl vars_map segs joiner ''-1'' filters = apply_filters (last segs) filters
       \<and> repl vars_map segs joiner ''0'' filters = Inr []
       \<and> render_template ''{-1}'' vars_map segs joiner = Inr (last segs)
       \<and> render_template ''{0}'' vars_map segs joiner = Inr []
       \<and> (fs \<noteq> [] \<and> CHR ''}'' \<notin> set fs \<longrightarrow>
            render_template (''{-1|'' @ fs @ ''}'') vars_map segs joiner
              = apply_filters (last segs) (Some fs)
          \<and> render_template (''{0|'' @ fs @ ''}'') vars_map segs joiner = Inr [])"
proof -
  have rl: "repl vars_map segs joiner ''-1'' f = apply_filters (last segs) f" for f
    using assms(1,2) by (rule repl_last)
  have rz: "repl vars_map segs joiner ''0'' f = Inr []" for f
    using assms(3) by (rule repl_zero)
  have a: "render_template ''{-1}'' vars_map segs joiner = Inr (last segs)"
    using render_single_plain [of "''-1''" vars_map segs joiner] rl [of None]
    by (simp add: apply_filters_def)
  have b: "render_template ''{0}'' vars_map segs joiner = Inr []"
    using render_single_plain [of "''0''" vars_map segs joiner] rz [of None]
    by simp
  have c: "render_template (''{-1|'' @ fs @ ''}'') vars_map segs joiner
              = apply_filters (last segs) (Some fs)" if "fs \<noteq> []" "CHR ''}'' \<notin> set fs"
    using render_single_filtered [OF that, of "''-1''" vars_map segs joiner]
      rl [of "Some fs"] by simp
  have d: "render_template (''{0|'' @ fs @ ''}'') vars_map segs joiner = Inr []"
    if "fs \<noteq> []" "CHR ''}'' \<notin> set fs"
    using render_single_filtered [OF that, of "''0''" vars_map segs joiner]
      rz [of "Some fs"] by simp
  show ?thesis
    using rl rz a b c d by blast
qed

theorem key_minus_one_and_zero_witness:
  "[''a'', ''b'', ''c''] \<noteq> [] \<and> (Map.empty :: string \<rightharpoonup> pyval) ''-1'' = None
   \<and> (Map.empty :: string \<rightharpoonup> pyval) ''0'' = None
   \<and> ''upper'' \<noteq> [] \<and> CHR ''}'' \<notin> set ''upper''
   \<and> render_template ''{-1|upper}'' Map.empty [''a'', ''b'', ''c''] ''-'' = Inr ''C''
   \<and> render_template ''{0|upper}'' Map.empty [''a'', ''b'', ''c''] ''-'' = Inr []
   \<and> render_template ''{-1}'' Map.empty [''a'', ''b'', ''c''] ''-'' = Inr ''c''"
  using key_minus_one_and_zero [of "[''a'', ''b'', ''c'']" Map.empty "''-''" "Some ''upper''" "''upper''"]
  by (simp add: apply_filters_def apply_filter_def str_ev)

lemma apply_filter_unknown:
  assumes "strip part \<notin> {''lower'', ''upper'', ''title'', ''strip''}"
    and "\<not> startswith (strip part) ''pad=''" and "\<not> startswith (strip part) ''zfill=''"
    and "\<not> startswith (strip part) ''prefix=''" and "\<not> startswith (strip part) ''suffix=''"
    and "\<not> startswith (strip part) ''replace=''"
  shows "apply_filter part t = Inr t"
  using assms by (simp add: apply_filter_def Let_def)

lemma apply_filter_raises:
  assumes "apply_filter part t = Inl e"
  shows "e = OverflowError \<and> maxsize < safe_int (split1 (strip part) (CHR ''='') ! 1) 0"
  using assms
  by (auto simp: apply_filter_def Let_def zfill_def split: if_splits list.splits)

lemma repl_unresolved:
  assumes "vars_map (strip key) = None" and "\<not> endswith (strip key) ''+''"
    and "CHR '':'' \<notin> set (strip key)" and "py_int (strip key) = None"
  shows "repl vars_map segs joiner key filters = Inr []"
  using assms by (simp add: repl_def Let_def safe_int_def)

lemma repl_out_of_range:
  assumes "vars_map (strip key) = None" and "\<not> endswith (strip key) ''+''"
    and "CHR '':'' \<notin> set (strip key)" and "py_int (strip key) = Some i"
    and "int (length segs) < i"
  shows "repl vars_map segs joiner key filters = Inr []"
  using assms by (simp add: repl_def Let_def safe_int_def)

text \<open>
  C4.  Rendering does not always return a string.  The filters \<open>pad=\<close> and \<open>zfill=\<close> hand
  the parsed number to \<open>str.zfill\<close>, which raises \<open>OverflowError\<close> for a width above the
  largest \<open>ssize_t\<close>; \<open>safe_int\<close> guards the parsing of the number only.  The template
  \<open>{1|pad=9223372036854775808}\<close> on the segment \<open>7\<close> raises.  (An unknown filter leaves the
  string unchanged and an unresolvable key gives the empty string: \<open>apply_filter_unknown\<close>,
  \<open>repl_unresolved\<close>, \<open>repl_out_of_range\<close>; a filter raises in no other way:
  \<open>apply_filter_raises\<close>.)
\<close>

theorem render_pad_overflow:
  "render_template ''{1|pad=9223372036854775808}'' Map.empty [''7''] ''-'' = Inl OverflowError"
  by (simp add: str_ev tpl_ev)

section \<open>Properties of the planner\<close>

lemmas path_ev = all_suffixes_def suffixes_def real_stem_def split_segments_def with_name_def
  str_path_def

lemmas plan_ev = plan_item_def make_vars_def parse_with_regex_def update_vars_def str_int_def
  int_str_def
  str_nat.simps digit_char_def

text \<open>
  C3.  A named group that took no part in the match is not absent from the variables:
  \<open>groupdict()\<close> lists it with the value \<open>None\<close>, \<open>vars_map.update\<close> stores that, and
  the renderer puts \<open>str(None)\<close> into the name.  For the stem \<open>abc\<close>, the pattern
  \<open>(?P<a>abc)(?P<b>-x)?\<close> matches with \<open>a = abc\<close> and without \<open>b\<close>; the template \<open>{a}{b}\<close>
  then gives the file \<open>abc.txt\<close> the destination \<open>abcNone.txt\<close>.
\<close>

theorem unmatched_group_renders_None:
  "plan_item \<lparr>re_match = (\<lambda>pattern stem. Inr (Some [(''a'', Some ''abc''), (''b'', None)])),
              path_match = (\<lambda>p g. Inr True), isoformat = (\<lambda>t. Inr ''2024-01-01T00:00:00''),
              str_lower = lower\<rparr>
     (default_rules\<lparr>regex := Some ''(?P<a>abc)(?P<b>-x)?'', template := ''{a}{b}''\<rparr>)
     \<lparr>path_of = \<lparr>parent = ''/data'', name = ''abc.txt''\<rparr>, st_mtime = 0, st_ctime = 0\<rparr> 1
   = Inr \<lparr>src = \<lparr>parent = ''/data'', name = ''abc.txt''\<rparr>,
          dst = \<lparr>parent = ''/data'', name = ''abcNone.txt''\<rparr>, changed = True,
          reason = ''ok''\<rparr>"
  by (simp add: plan_ev path_ev default_rules_def str_ev tpl_ev)

lemma zfill_returns:
  "- maxsize - 1 \<le> w \<Longrightarrow> w \<le> maxsize \<Longrightarrow> \<exists>r. zfill s w = Inr r"
  by (cases s) (auto simp: zfill_def)

lemma join_concat: "join sep (x # xs) = x @ concat (map (\<lambda>s. sep @ s) xs)"
  by (induction xs arbitrary: x) (auto simp: join_Cons)

lemma all_suffixes_suffix: "suffix (all_suffixes p) (name p)"
proof (cases "endswith (name p) ''.''")
  case True
  then show ?thesis by (simp add: all_suffixes_def suffixes_def)
next
  case False
  let ?n = "dropWhile (\<lambda>c. c = CHR ''.'') (name p)"
  obtain x xs where sp: "split ?n ''.'' = x # xs"
    using split_from_ne [of "''.''" "[]" ?n] by (cases "split ?n ''.''") (auto simp: split_def)
  have "join ''.'' (split ?n ''.'') = ?n" by (simp add: split_def join_split_from)
  then have "?n = x @ concat (map (\<lambda>s. ''.'' @ s) xs)" using sp by (simp add: join_concat)
  then have "?n = x @ all_suffixes p" using False sp by (simp add: all_suffixes_def suffixes_def)
  then have "suffix (all_suffixes p) ?n" by (metis suffixI)
  moreover have "suffix ?n (name p)" by (rule suffix_dropWhile)
  ultimately show ?thesis by (rule suffix_order.trans)
qed

lemma stem_ext: "real_stem p @ all_suffixes p = name p"
  using all_suffixes_suffix [of p] by (auto simp: real_stem_def Let_def suffix_def)


lemma plan_item_Inr:
  "plan_item ev rules p seq_value = Inr it \<longleftrightarrow>
     (\<exists>vars_map new_stem d.
        make_vars ev rules p seq_value = Inr vars_map
      \<and> render_template (template rules) vars_map
           (split_segments (real_stem (path_of p)) (delimiter rules)) (slice_joiner rules)
          = Inr new_stem
      \<and> with_name (path_of p)
           (if contains (template rules) ''{ext}'' then new_stem
            else new_stem @ all_suffixes (path_of p)) = Inr d
      \<and> it = \<lparr>src = path_of p, dst = d,
               changed = ((if contains (template rules) ''{ext}'' then new_stem
                           else new_stem @ all_suffixes (path_of p)) \<noteq> name (path_of p)),
               reason = (if (if contains (template rules) ''{ext}'' then new_stem
                             else new_stem @ all_suffixes (path_of p)) \<noteq> name (path_of p)
                         then ''ok'' else ''no-change'')\<rparr>)"
proof (cases "make_vars ev rules p seq_value")
  case (Inl e)
  then show ?thesis by (simp add: plan_item_def Let_def)
next
  case vm: (Inr vars_map)
  show ?thesis
  proof (cases "render_template (template rules) vars_map
           (split_segments (real_stem (path_of p)) (delimiter rules)) (slice_joiner rules)")
    case (Inl e)
    then show ?thesis using vm by (simp add: plan_item_def Let_def)
  next
    case ns: (Inr new_stem)
    show ?thesis
    proof (cases "with_name (path_of p)
           (if contains (template rules) ''{ext}'' then new_stem
            else new_stem @ all_suffixes (path_of p))")
      case (Inl e)
      then show ?thesis using vm ns by (simp add: plan_item_def Let_def)
    next
      case (Inr d)
      then show ?thesis using vm ns by (simp add: plan_item_def Let_def eq_commute [of it])
    qed
  qed
qed

lemma with_name_name: "with_name p n = Inr d \<Longrightarrow> name d = n"
  by (auto simp: with_name_def split: if_splits)

text \<open>
  C6.  When the template does not contain the text \<open>{ext}\<close>, the name of the destination
  is the rendered template followed by the full extension of the file: every plan item the
  loop body returns has that name, and the body returns one whenever the variables are
  built, the rendering returns and \<open>with_name\<close> accepts the name.  The file
  \<open>archive.tar.gz\<close> has the stem \<open>archive\<close> and the extension \<open>.tar.gz\<close>, and the template
  \<open>{stem}_backup\<close> gives it the destination \<open>archive_backup.tar.gz\<close>, at every sequence
  value that can be printed, provided its two time stamps can be formatted.
\<close>

theorem ext_appended:
  assumes "\<not> contains (template rules) ''{ext}''"
  shows "(plan_item ev rules p seq_value = Inr it \<longrightarrow>
           (\<exists>vars_map new_stem.
              make_vars ev rules p seq_value = Inr vars_map
            \<and> render_template (template rules) vars_map
                 (split_segments (real_stem (path_of p)) (delimiter rules)) (slice_joiner rules)
                = Inr new_stem
            \<and> name (dst it) = new_stem @ all_suffixes (path_of p)))
       \<and> (make_vars ev rules p seq_value = Inr vm
          \<and> render_template (template rules) vm
               (split_segments (real_stem (path_of p)) (delimiter rules)) (slice_joiner rules)
              = Inr ns
          \<and> with_name (path_of p) (ns @ all_suffixes (path_of p)) = Inr d
          \<longrightarrow> (\<exists>it'. plan_item ev rules p seq_value = Inr it'
                \<and> name (dst it') = ns @ all_suffixes (path_of p)))
       \<and> real_stem \<lparr>parent = dir, name = ''archive.tar.gz''\<rparr> = ''archive''
       \<and> all_suffixes \<lparr>parent = dir, name = ''archive.tar.gz''\<rparr> = ''.tar.gz''
       \<and> (int_str seq_value = Inr sv \<and> isoformat ev mt = Inr m \<and> isoformat ev ct = Inr c \<longrightarrow>
            plan_item ev (default_rules\<lparr>template := ''{stem}_backup''\<rparr>)
              \<lparr>path_of = \<lparr>parent = dir, name = ''archive.tar.gz''\<rparr>, st_mtime = mt,
                st_ctime = ct\<rparr> seq_value
            = Inr \<lparr>src = \<lparr>parent = dir, name = ''archive.tar.gz''\<rparr>,
                   dst = \<lparr>parent = dir, name = ''archive_backup.tar.gz''\<rparr>,
                   changed = True, reason = ''ok''\<rparr>)"
proof (intro conjI impI)
  assume "plan_item ev rules p seq_value = Inr it"
  then obtain vars_map new_stem d0 where
    h: "make_vars ev rules p seq_value = Inr vars_map"
       "render_template (template rules) vars_map
           (split_segments (real_stem (path_of p)) (delimiter rules)) (slice_joiner rules)
          = Inr new_stem"
       "with_name (path_of p) (new_stem @ all_suffixes (path_of p)) = Inr d0"
       "dst it = d0"
    using assms by (auto simp: plan_item_Inr)
  then show "\<exists>vars_map new_stem.
              make_vars ev rules p seq_value = Inr vars_map
            \<and> render_template (template rules) vars_map
                 (split_segments (real_stem (path_of p)) (delimiter rules)) (slice_joiner rules)
                = Inr new_stem
            \<and> name (dst it) = new_stem @ all_suffixes (path_of p)"
    using with_name_name [OF h(3)] by blast
next
  assume a: "make_vars ev rules p seq_value = Inr vm
          \<and> render_template (template rules) vm
               (split_segments (real_stem (path_of p)) (delimiter rules)) (slice_joiner rules)
              = Inr ns
          \<and> with_name (path_of p) (ns @ all_suffixes (path_of p)) = Inr d"
  then show "\<exists>it'. plan_item ev rules p seq_value = Inr it'
                \<and> name (dst it') = ns @ all_suffixes (path_of p)"
    using assms with_name_name [of "path_of p" "ns @ all_suffixes (path_of p)" d]
    by (simp add: plan_item_Inr)
next
  show "real_stem \<lparr>parent = dir, name = ''archive.tar.gz''\<rparr> = ''archive''"
    by (simp add: path_ev str_ev)
next
  show "all_suffixes \<lparr>parent = dir, name = ''archive.tar.gz''\<rparr> = ''.tar.gz''"
    by (simp add: path_ev str_ev)
next
  assume iso: "int_str seq_value = Inr sv \<and> isoformat ev mt = Inr m \<and> isoformat ev ct = Inr c"
  obtain r where r: "zfill sv 4 = Inr r"
    using zfill_returns [of 4 sv] by (auto simp: maxsize_def)
  show "plan_item ev (default_rules\<lparr>template := ''{stem}_backup''\<rparr>)
              \<lparr>path_of = \<lparr>parent = dir, name = ''archive.tar.gz''\<rparr>, st_mtime = mt,
                st_ctime = ct\<rparr> seq_value
            = Inr \<lparr>src = \<lparr>parent = dir, name = ''archive.tar.gz''\<rparr>,
                   dst = \<lparr>parent = dir, name = ''archive_backup.tar.gz''\<rparr>,
                   changed = True, reason = ''ok''\<rparr>"
    using iso r
    by (simp add: plan_item_def make_vars_def path_ev default_rules_def str_ev
          render_template_def repl_def match_placeholder_def apply_filters_def Let_def)
qed

theorem ext_appended_witness:
  "\<not> contains (template (default_rules\<lparr>template := ''{stem}_backup''\<rparr>)) ''{ext}''
   \<and> plan_item \<lparr>re_match = (\<lambda>pattern stem. Inr None), path_match = (\<lambda>p g. Inr True),
                 isoformat = (\<lambda>t. Inr ''1970-01-01T00:00:00''), str_lower = lower\<rparr>
        (default_rules\<lparr>template := ''{stem}_backup''\<rparr>)
        \<lparr>path_of = \<lparr>parent = ''/data'', name = ''archive.tar.gz''\<rparr>, st_mtime = 0,
          st_ctime = 0\<rparr> 1
      = Inr \<lparr>src = \<lparr>parent = ''/data'', name = ''archive.tar.gz''\<rparr>,
             dst = \<lparr>parent = ''/data'', name = ''archive_backup.tar.gz''\<rparr>,
             changed = True, reason = ''ok''\<rparr>
   \<and> ''archive_backup.tar.gz''
      = ''archive_backup'' @ all_suffixes \<lparr>parent = ''/data'', name = ''archive.tar.gz''\<rparr>"
  using ext_appended [of "default_rules\<lparr>template := ''{stem}_backup''\<rparr>"
      "\<lparr>re_match = (\<lambda>pattern stem. Inr None), path_match = (\<lambda>p g. Inr True),
        isoformat = (\<lambda>t. Inr ''1970-01-01T00:00:00''), str_lower = lower\<rparr>"
      "\<lparr>path_of = \<lparr>parent = ''/data'', name = ''archive.tar.gz''\<rparr>, st_mtime = 0, st_ctime = 0\<rparr>"
      1 _ _ _ _ "''/data''" "''1''" 0 "''1970-01-01T00:00:00''" 0 "''1970-01-01T00:00:00''"]
  by (simp add: default_rules_def int_str_def max_str_digits_def str_int_def str_nat.simps
        digit_char_def)

lemma build_loop_seq:
  "build_loop ev rules files s = Inr plan \<Longrightarrow>
     length plan = length (filter (passes ev rules) files) \<and>
     (\<forall>i < length plan.
        plan_item ev rules (filter (passes ev rules) files ! i) (s + int i * seq_step rules)
          = Inr (plan ! i))"
proof (induction files arbitrary: s plan)
  case Nil
  then show ?case by simp
next
  case (Cons p ps)
  show ?case
  proof (cases "passes ev rules p")
    case False
    then have "build_loop ev rules (p # ps) s = build_loop ev rules ps s
               \<or> (\<exists>e. build_loop ev rules (p # ps) s = Inl e)"
      by (cases "should_take ev (path_of p) rules") (auto simp: passes_def)
    then have "build_loop ev rules ps s = Inr plan" using Cons.prems by auto
    then show ?thesis using Cons.IH False by simp
  next
    case True
    then have t: "\<not> startswith (name (path_of p)) ''__tmp_rename__''"
      and st: "should_take ev (path_of p) rules = Inr True" by (auto simp: passes_def)
    obtain it where it: "plan_item ev rules p s = Inr it"
      using Cons.prems t st by (cases "plan_item ev rules p s") auto
    obtain rest where rest: "build_loop ev rules ps (s + seq_step rules) = Inr rest"
      using Cons.prems t st it by (cases "build_loop ev rules ps (s + seq_step rules)") auto
    have plan: "plan = it # rest" using Cons.prems t st it rest by simp
    note ih = Cons.IH [OF rest]
    have len: "length plan = length (filter (passes ev rules) (p # ps))"
      using ih plan True by simp
    have "plan_item ev rules (filter (passes ev rules) (p # ps) ! i) (s + int i * seq_step rules)
          = Inr (plan ! i)" if "i < length plan" for i
    proof (cases i)
      case 0
      then show ?thesis using it plan True by simp
    next
      case (Suc j)
      then have "j < length rest" using that plan by simp
      then have "plan_item ev rules (filter (passes ev rules) ps ! j)
                   (s + seq_step rules + int j * seq_step rules) = Inr (rest ! j)"
        using ih by blast
      moreover have "s + seq_step rules + int j * seq_step rules = s + int (Suc j) * seq_step rules"
        by (simp add: algebra_simps)
      ultimately show ?thesis using Suc plan True by simp
    qed
    then show ?thesis using len by blast
  qed
qed

lemma not_slash_suffixes: "CHR ''/'' \<notin> set (name p) \<Longrightarrow> CHR ''/'' \<notin> set (all_suffixes p)"
  using all_suffixes_suffix [of p] by (auto simp: suffix_def)

lemma zfill_small: "zfill ''1'' 3 = Inr ''001''" "zfill ''2'' 3 = Inr ''002''" "zfill ''3'' 3 = Inr ''003''"
  by (simp_all add: zfill_def maxsize_def replicate_numeral)

lemma str_int_small: "str_int 1 = ''1''" "str_int 2 = ''2''" "str_int 3 = ''3''"
  by (simp_all add: str_int_def str_nat.simps digit_char_def)

lemma int_str_small: "int_str 1 = Inr ''1''" "int_str 2 = Inr ''2''" "int_str 3 = Inr ''3''"
  by (simp_all add: int_str_def max_str_digits_def str_int_def str_nat.simps digit_char_def)

lemma build_loop_three:
  assumes "passes ev R a" "passes ev R b" "passes ev R c"
    and "plan_item ev R a s = Inr ia"
    and "plan_item ev R b (s + seq_step R) = Inr ib"
    and "plan_item ev R c (s + seq_step R + seq_step R) = Inr ic"
  shows "build_loop ev R [a, b, c] s = Inr [ia, ib, ic]"
  using assms by (simp add: passes_def)

lemma plan_item_img:
  assumes "name (path_of p) \<noteq> []" "CHR ''/'' \<notin> set (name (path_of p))"
    and "k \<in> {1, 2, 3}"
    and "isoformat ev (st_mtime p) = Inr mt" "isoformat ev (st_ctime p) = Inr ct"
  shows "plan_item ev (default_rules\<lparr>template := ''img_{seq}'', seq_pad := 3\<rparr>) p k
         = Inr \<lparr>src = path_of p,
                dst = (path_of p)\<lparr>name := ''img_00'' @ str_int k @ all_suffixes (path_of p)\<rparr>,
                changed = (''img_00'' @ str_int k @ all_suffixes (path_of p) \<noteq> name (path_of p)),
                reason = (if ''img_00'' @ str_int k @ all_suffixes (path_of p) \<noteq> name (path_of p)
                          then ''ok'' else ''no-change'')\<rparr>"
proof -
  have k: "k = 1 \<or> k = 2 \<or> k = 3" using assms(3) by auto
  have ns: "CHR ''/'' \<notin> set (all_suffixes (path_of p))" using assms(2) by (rule not_slash_suffixes)
  from k show ?thesis
  proof (elim disjE)
    assume "k = 1"
    then show ?thesis using assms(1,4,5) ns
      by (simp add: plan_item_def make_vars_def default_rules_def str_int_small int_str_small
            zfill_small with_name_def render_template_def repl_def
            match_placeholder_def apply_filters_def Let_def strip_def is_space_def)
  next
    assume "k = 2"
    then show ?thesis using assms(1,4,5) ns
      by (simp add: plan_item_def make_vars_def default_rules_def str_int_small int_str_small
            zfill_small with_name_def render_template_def repl_def
            match_placeholder_def apply_filters_def Let_def strip_def is_space_def)
  next
    assume "k = 3"
    then show ?thesis using assms(1,4,5) ns
      by (simp add: plan_item_def make_vars_def default_rules_def str_int_small int_str_small
            zfill_small with_name_def render_template_def repl_def
            match_placeholder_def apply_filters_def Let_def strip_def is_space_def)
  qed
qed

lemma should_take_default:
  "should_take ev p (default_rules\<lparr>template := ''img_{seq}'', seq_pad := 3\<rparr>) = Inr True"
  by (simp add: should_take_def default_rules_def)


lemma set_sort_files: "set (sort_files ev files skey sorder) = set files"
  by (simp add: sort_files_def sorted_py_def Let_def)

lemma build_loop_returns:
  "(\<forall>p \<in> set files. startswith (name (path_of p)) ''__tmp_rename__''
        \<or> (\<exists>b. should_take ev (path_of p) rules = Inr b)) \<Longrightarrow>
   (\<forall>i < length (filter (passes ev rules) files).
        \<exists>it. plan_item ev rules (filter (passes ev rules) files ! i) (s + int i * seq_step rules)
               = Inr it) \<Longrightarrow>
   \<exists>plan. build_loop ev rules files s = Inr plan"
proof (induction files arbitrary: s)
  case Nil
  then show ?case by simp
next
  case (Cons p ps)
  have st: "\<forall>q \<in> set ps. startswith (name (path_of q)) ''__tmp_rename__''
        \<or> (\<exists>b. should_take ev (path_of q) rules = Inr b)" using Cons.prems(1) by simp
  show ?case
  proof (cases "passes ev rules p")
    case False
    then have f: "filter (passes ev rules) (p # ps) = filter (passes ev rules) ps" by simp
    have "\<exists>plan. build_loop ev rules ps s = Inr plan"
      using Cons.IH [OF st, of s] Cons.prems(2) unfolding f by blast
    moreover have "build_loop ev rules (p # ps) s = build_loop ev rules ps s"
    proof (cases "startswith (name (path_of p)) ''__tmp_rename__''")
      case True
      then show ?thesis by simp
    next
      case nt: False
      then obtain b where b: "should_take ev (path_of p) rules = Inr b"
        using Cons.prems(1) by auto
      then have "\<not> b" using False nt by (auto simp: passes_def)
      then show ?thesis using nt b by simp
    qed
    ultimately show ?thesis by simp
  next
    case True
    then have nt: "\<not> startswith (name (path_of p)) ''__tmp_rename__''"
      and stp: "should_take ev (path_of p) rules = Inr True" by (auto simp: passes_def)
    have f: "filter (passes ev rules) (p # ps) = p # filter (passes ev rules) ps"
      using True by simp
    obtain it where it: "plan_item ev rules p s = Inr it"
      using Cons.prems(2) [unfolded f, rule_format, of 0] by auto
    have "\<exists>it'. plan_item ev rules (filter (passes ev rules) ps ! i)
                 (s + seq_step rules + int i * seq_step rules) = Inr it'"
      if "i < length (filter (passes ev rules) ps)" for i
    proof -
      have "\<exists>it'. plan_item ev rules ((p # filter (passes ev rules) ps) ! Suc i)
                 (s + int (Suc i) * seq_step rules) = Inr it'"
        using Cons.prems(2) [unfolded f, rule_format, of "Suc i"] that by simp
      moreover have "s + int (Suc i) * seq_step rules = s + seq_step rules + int i * seq_step rules"
        by (simp add: algebra_simps)
      ultimately show ?thesis by (simp add: add.assoc)
    qed
    then obtain rest where "build_loop ev rules ps (s + seq_step rules) = Inr rest"
      using Cons.IH [OF st, of "s + seq_step rules"] by blast
    then show ?thesis using nt stp it by simp
  qed
qed


lemma img_seq_plan:
  assumes h: "sort_files ev files ''name'' ''asc'' = [a, b, c]
    \<and> (\<forall>p \<in> {a, b, c}. name (path_of p) \<noteq> [] \<and> CHR ''/'' \<notin> set (name (path_of p))
           \<and> \<not> startswith (name (path_of p)) ''__tmp_rename__''
           \<and> (\<exists>mt. isoformat ev (st_mtime p) = Inr mt)
           \<and> (\<exists>ct. isoformat ev (st_ctime p) = Inr ct))"
  shows "map_sum id (map (\<lambda>it. (src it, name (dst it))))
        (build_plan ev files (default_rules\<lparr>template := ''img_{seq}'', seq_pad := 3\<rparr>))
      = Inr [(path_of a, ''img_001'' @ all_suffixes (path_of a)),
             (path_of b, ''img_002'' @ all_suffixes (path_of b)),
             (path_of c, ''img_003'' @ all_suffixes (path_of c))]"
proof -
  define R where "R = default_rules\<lparr>template := ''img_{seq}'', seq_pad := 3\<rparr>"
  have fields: "sort_key R = ''name''" "sort_order R = ''asc''" "seq_start R = 1"
    "seq_step R = 1" "preview_limit R = 0"
    by (simp_all add: R_def default_rules_def)
  have abc: "sort_files ev files ''name'' ''asc'' = [a, b, c]" using h by simp
  have va: "name (path_of a) \<noteq> []" "CHR ''/'' \<notin> set (name (path_of a))"
      "\<not> startswith (name (path_of a)) ''__tmp_rename__''" using h by auto
  have vb: "name (path_of b) \<noteq> []" "CHR ''/'' \<notin> set (name (path_of b))"
      "\<not> startswith (name (path_of b)) ''__tmp_rename__''" using h by auto
  have vc: "name (path_of c) \<noteq> []" "CHR ''/'' \<notin> set (name (path_of c))"
      "\<not> startswith (name (path_of c)) ''__tmp_rename__''" using h by auto
  obtain ma ca where ta: "isoformat ev (st_mtime a) = Inr ma" "isoformat ev (st_ctime a) = Inr ca"
    using h by auto
  obtain mb cb where tb: "isoformat ev (st_mtime b) = Inr mb" "isoformat ev (st_ctime b) = Inr cb"
    using h by auto
  obtain mc cc where tc: "isoformat ev (st_mtime c) = Inr mc" "isoformat ev (st_ctime c) = Inr cc"
    using h by auto
  have ps: "passes ev R a" "passes ev R b" "passes ev R c"
    using va(3) vb(3) vc(3) by (simp_all add: passes_def R_def should_take_default)
  obtain ia where ia: "plan_item ev R a 1 = Inr ia" "src ia = path_of a"
    "name (dst ia) = ''img_001'' @ all_suffixes (path_of a)"
    using plan_item_img [of a 1 ev ma ca] va(1,2) ta by (simp add: R_def str_int_small)
  obtain ib where ib: "plan_item ev R b 2 = Inr ib" "src ib = path_of b"
    "name (dst ib) = ''img_002'' @ all_suffixes (path_of b)"
    using plan_item_img [of b 2 ev mb cb] vb(1,2) tb by (simp add: R_def str_int_small)
  obtain ic where ic: "plan_item ev R c 3 = Inr ic" "src ic = path_of c"
    "name (dst ic) = ''img_003'' @ all_suffixes (path_of c)"
    using plan_item_img [of c 3 ev mc cc] vc(1,2) tc by (simp add: R_def str_int_small)
  have "build_loop ev R [a, b, c] 1 = Inr [ia, ib, ic]"
    using ps ia(1) ib(1) ic(1) by (intro build_loop_three) (simp_all add: fields)
  then have "build_plan ev files R = Inr [ia, ib, ic]"
    using abc by (simp add: build_plan_def fields)
  then show ?thesis
    using ia(2,3) ib(2,3) ic(2,3) unfolding R_def by simp
qed

text \<open>
  C7 as the code has it.  The sequence counter starts at \<open>seq_start\<close> and grows by
  \<open>seq_step\<close> once for each file that passes the filtering, in the order of the sort,
  whether or not the name of the file changes: the item at position \<open>i\<close> of a plan that
  \<open>build_plan\<close> returns is the one the loop body makes, at the sequence value
  \<open>seq_start + i * seq_step\<close>, for the file at position \<open>i\<close> among the sorted files that
  pass, and the plan has one item for each of them, up to the preview limit.  A plan is
  returned whenever the filters raise for no file and the loop body returns an item for
  each passing file at its sequence value.  For three files that the sort by name puts in
  the order \<open>a, b, c\<close>, with start 1, step 1, width 3 and the template \<open>img_{seq}\<close>, the plan
  is returned and its destinations are \<open>img_001\<close>, \<open>img_002\<close> and \<open>img_003\<close>, each followed
  by the extension of its file.
\<close>

theorem sequence_counter:
  "(build_plan ev files rules = Inr plan \<longrightarrow>
      length plan
      = (if preview_limit rules > 0
         then min (nat (preview_limit rules))
                (length (filter (passes ev rules)
                   (sort_files ev files (sort_key rules) (sort_order rules))))
         else length (filter (passes ev rules)
                (sort_files ev files (sort_key rules) (sort_order rules))))
    \<and> (\<forall>i < length plan.
         plan_item ev rules
           (filter (passes ev rules) (sort_files ev files (sort_key rules) (sort_order rules)) ! i)
           (seq_start rules + int i * seq_step rules) = Inr (plan ! i)))
 \<and> ((\<forall>p \<in> set files. startswith (name (path_of p)) ''__tmp_rename__''
          \<or> (\<exists>b. should_take ev (path_of p) rules = Inr b))
    \<and> (\<forall>i < length (filter (passes ev rules)
                       (sort_files ev files (sort_key rules) (sort_order rules))).
          \<exists>it. plan_item ev rules
                 (filter (passes ev rules)
                    (sort_files ev files (sort_key rules) (sort_order rules)) ! i)
                 (seq_start rules + int i * seq_step rules) = Inr it) \<longrightarrow>
      (\<exists>plan'. build_plan ev files rules = Inr plan'))
 \<and> (sort_files ev files ''name'' ''asc'' = [a, b, c]
    \<and> (\<forall>p \<in> {a, b, c}. name (path_of p) \<noteq> [] \<and> CHR ''/'' \<notin> set (name (path_of p))
           \<and> \<not> startswith (name (path_of p)) ''__tmp_rename__''
           \<and> (\<exists>mt. isoformat ev (st_mtime p) = Inr mt)
           \<and> (\<exists>ct. isoformat ev (st_ctime p) = Inr ct)) \<longrightarrow>
      map_sum id (map (\<lambda>it. (src it, name (dst it))))
        (build_plan ev files (default_rules\<lparr>template := ''img_{seq}'', seq_pad := 3\<rparr>))
      = Inr [(path_of a, ''img_001'' @ all_suffixes (path_of a)),
             (path_of b, ''img_002'' @ all_suffixes (path_of b)),
             (path_of c, ''img_003'' @ all_suffixes (path_of c))])"
proof (intro conjI impI)
  assume bp: "build_plan ev files rules = Inr plan"
  let ?sorted = "sort_files ev files (sort_key rules) (sort_order rules)"
  obtain full where full: "build_loop ev rules ?sorted (seq_start rules) = Inr full"
    and plan: "plan = (if preview_limit rules > 0 then take (nat (preview_limit rules)) full else full)"
    using bp by (cases "build_loop ev rules ?sorted (seq_start rules)")
      (auto simp: build_plan_def split: if_splits)
  note bl = build_loop_seq [OF full]
  show "length plan
      = (if preview_limit rules > 0
         then min (nat (preview_limit rules)) (length (filter (passes ev rules) ?sorted))
         else length (filter (passes ev rules) ?sorted))"
    using bl plan by (simp add: min.commute)
  show "\<forall>i < length plan.
         plan_item ev rules (filter (passes ev rules) ?sorted ! i)
           (seq_start rules + int i * seq_step rules) = Inr (plan ! i)"
    using bl plan by auto
next
  let ?sorted = "sort_files ev files (sort_key rules) (sort_order rules)"
  assume h: "(\<forall>p \<in> set files. startswith (name (path_of p)) ''__tmp_rename__''
          \<or> (\<exists>b. should_take ev (path_of p) rules = Inr b))
    \<and> (\<forall>i < length (filter (passes ev rules) ?sorted).
          \<exists>it. plan_item ev rules (filter (passes ev rules) ?sorted ! i)
                 (seq_start rules + int i * seq_step rules) = Inr it)"
  have "\<forall>p \<in> set ?sorted. startswith (name (path_of p)) ''__tmp_rename__''
          \<or> (\<exists>b. should_take ev (path_of p) rules = Inr b)"
    using h by (simp add: set_sort_files)
  then obtain full where "build_loop ev rules ?sorted (seq_start rules) = Inr full"
    using h build_loop_returns [of ?sorted ev rules "seq_start rules"] by blast
  then show "\<exists>plan'. build_plan ev files rules = Inr plan'"
    by (simp add: build_plan_def)
next
  assume "sort_files ev files ''name'' ''asc'' = [a, b, c]
    \<and> (\<forall>p \<in> {a, b, c}. name (path_of p) \<noteq> [] \<and> CHR ''/'' \<notin> set (name (path_of p))
           \<and> \<not> startswith (name (path_of p)) ''__tmp_rename__''
           \<and> (\<exists>mt. isoformat ev (st_mtime p) = Inr mt)
           \<and> (\<exists>ct. isoformat ev (st_ctime p) = Inr ct))"
  then show "map_sum id (map (\<lambda>it. (src it, name (dst it))))
        (build_plan ev files (default_rules\<lparr>template := ''img_{seq}'', seq_pad := 3\<rparr>))
      = Inr [(path_of a, ''img_001'' @ all_suffixes (path_of a)),
             (path_of b, ''img_002'' @ all_suffixes (path_of b)),
             (path_of c, ''img_003'' @ all_suffixes (path_of c))]"
    by (rule img_seq_plan)
qed

lemma sort_demo:
  "sort_files \<lparr>re_match = (\<lambda>pattern stem. Inr None), path_match = (\<lambda>p g. Inr True),
                isoformat = (\<lambda>t. Inr ''1970-01-01T00:00:00''), str_lower = lower\<rparr>
     [\<lparr>path_of = \<lparr>parent = ''/d'', name = ''zeta''\<rparr>, st_mtime = 3, st_ctime = 3\<rparr>,
      \<lparr>path_of = \<lparr>parent = ''/d'', name = ''Alpha''\<rparr>, st_mtime = 2, st_ctime = 2\<rparr>,
      \<lparr>path_of = \<lparr>parent = ''/d'', name = ''mid''\<rparr>, st_mtime = 1, st_ctime = 1\<rparr>]
     ''name'' ''asc''
   = [\<lparr>path_of = \<lparr>parent = ''/d'', name = ''Alpha''\<rparr>, st_mtime = 2, st_ctime = 2\<rparr>,
      \<lparr>path_of = \<lparr>parent = ''/d'', name = ''mid''\<rparr>, st_mtime = 1, st_ctime = 1\<rparr>,
      \<lparr>path_of = \<lparr>parent = ''/d'', name = ''zeta''\<rparr>, st_mtime = 3, st_ctime = 3\<rparr>]"
  by (simp add: sort_files_def sorted_py_def lower_def lower_char_def less_eq_char_def)

lemma sort_demo_jpg:
  "sort_files \<lparr>re_match = (\<lambda>pattern stem. Inr None), path_match = (\<lambda>p g. Inr True),
                isoformat = (\<lambda>t. Inr ''1970-01-01T00:00:00''), str_lower = lower\<rparr>
     [\<lparr>path_of = \<lparr>parent = ''/d'', name = ''b.jpg''\<rparr>, st_mtime = 3, st_ctime = 3\<rparr>,
      \<lparr>path_of = \<lparr>parent = ''/d'', name = ''a.jpg''\<rparr>, st_mtime = 2, st_ctime = 2\<rparr>,
      \<lparr>path_of = \<lparr>parent = ''/d'', name = ''c.jpg''\<rparr>, st_mtime = 1, st_ctime = 1\<rparr>]
     ''name'' ''asc''
   = [\<lparr>path_of = \<lparr>parent = ''/d'', name = ''a.jpg''\<rparr>, st_mtime = 2, st_ctime = 2\<rparr>,
      \<lparr>path_of = \<lparr>parent = ''/d'', name = ''b.jpg''\<rparr>, st_mtime = 3, st_ctime = 3\<rparr>,
      \<lparr>path_of = \<lparr>parent = ''/d'', name = ''c.jpg''\<rparr>, st_mtime = 1, st_ctime = 1\<rparr>]"
  by (simp add: sort_files_def sorted_py_def lower_def lower_char_def less_eq_char_def)

theorem sequence_counter_witness:
  "sort_files \<lparr>re_match = (\<lambda>pattern stem. Inr None), path_match = (\<lambda>p g. Inr True),
                isoformat = (\<lambda>t. Inr ''1970-01-01T00:00:00''), str_lower = lower\<rparr>
     [\<lparr>path_of = \<lparr>parent = ''/d'', name = ''zeta''\<rparr>, st_mtime = 3, st_ctime = 3\<rparr>,
      \<lparr>path_of = \<lparr>parent = ''/d'', name = ''Alpha''\<rparr>, st_mtime = 2, st_ctime = 2\<rparr>,
      \<lparr>path_of = \<lparr>parent = ''/d'', name = ''mid''\<rparr>, st_mtime = 1, st_ctime = 1\<rparr>]
     ''name'' ''asc''
   = [\<lparr>path_of = \<lparr>parent = ''/d'', name = ''Alpha''\<rparr>, st_mtime = 2, st_ctime = 2\<rparr>,
      \<lparr>path_of = \<lparr>parent = ''/d'', name = ''mid''\<rparr>, st_mtime = 1, st_ctime = 1\<rparr>,
      \<lparr>path_of = \<lparr>parent = ''/d'', name = ''zeta''\<rparr>, st_mtime = 3, st_ctime = 3\<rparr>]
   \<and> map_sum id (map (\<lambda>it. (name (src it), name (dst it))))
        (build_plan \<lparr>re_match = (\<lambda>pattern stem. Inr None), path_match = (\<lambda>p g. Inr True),
                      isoformat = (\<lambda>t. Inr ''1970-01-01T00:00:00''), str_lower = lower\<rparr>
           [\<lparr>path_of = \<lparr>parent = ''/d'', name = ''zeta''\<rparr>, st_mtime = 3, st_ctime = 3\<rparr>,
            \<lparr>path_of = \<lparr>parent = ''/d'', name = ''Alpha''\<rparr>, st_mtime = 2, st_ctime = 2\<rparr>,
            \<lparr>path_of = \<lparr>parent = ''/d'', name = ''mid''\<rparr>, st_mtime = 1, st_ctime = 1\<rparr>]
           (default_rules\<lparr>template := ''img_{seq}'', seq_pad := 3\<rparr>))
     = Inr [(''Alpha'', ''img_001''), (''mid'', ''img_002''), (''zeta'', ''img_003'')]"
proof -
  let ?ev = "\<lparr>re_match = (\<lambda>pattern stem. Inr None), path_match = (\<lambda>p g. Inr True),
                      isoformat = (\<lambda>t. Inr ''1970-01-01T00:00:00''), str_lower = lower\<rparr>"
  let ?z = "\<lparr>path_of = \<lparr>parent = ''/d'', name = ''zeta''\<rparr>, st_mtime = 3, st_ctime = 3\<rparr>"
  let ?a = "\<lparr>path_of = \<lparr>parent = ''/d'', name = ''Alpha''\<rparr>, st_mtime = 2, st_ctime = 2\<rparr>"
  let ?m = "\<lparr>path_of = \<lparr>parent = ''/d'', name = ''mid''\<rparr>, st_mtime = 1, st_ctime = 1\<rparr>"
  have hyp: "sort_files ?ev [?z, ?a, ?m] ''name'' ''asc'' = [?a, ?m, ?z]
    \<and> (\<forall>p \<in> {?a, ?m, ?z}. name (path_of p) \<noteq> [] \<and> CHR ''/'' \<notin> set (name (path_of p))
           \<and> \<not> startswith (name (path_of p)) ''__tmp_rename__''
           \<and> (\<exists>mt. isoformat ?ev (st_mtime p) = Inr mt)
           \<and> (\<exists>ct. isoformat ?ev (st_ctime p) = Inr ct))"
    by (simp add: sort_demo startswith_def)
  have sfx: "all_suffixes (path_of ?a) = []" "all_suffixes (path_of ?m) = []"
    "all_suffixes (path_of ?z) = []"
    by (simp_all add: path_ev str_ev)
  have "map_sum id (map (\<lambda>it. (src it, name (dst it))))
        (build_plan ?ev [?z, ?a, ?m] (default_rules\<lparr>template := ''img_{seq}'', seq_pad := 3\<rparr>))
      = Inr [(path_of ?a, ''img_001''), (path_of ?m, ''img_002''), (path_of ?z, ''img_003'')]"
    using mp [OF conjunct2 [OF conjunct2
          [OF sequence_counter [of ?ev "[?z, ?a, ?m]" default_rules "[]" ?a ?m ?z]]] hyp]
    by (simp only: sfx append_Nil2)
  then have "map_sum id (map (\<lambda>it. (name (src it), name (dst it))))
        (build_plan ?ev [?z, ?a, ?m] (default_rules\<lparr>template := ''img_{seq}'', seq_pad := 3\<rparr>))
      = Inr [(''Alpha'', ''img_001''), (''mid'', ''img_002''), (''zeta'', ''img_003'')]"
    by (cases "build_plan ?ev [?z, ?a, ?m] (default_rules\<lparr>template := ''img_{seq}'', seq_pad := 3\<rparr>)")
       auto
  then show ?thesis using hyp by simp
qed

text \<open>
  With files that have an extension the destinations are not \<open>img_001\<close>, \<open>img_002\<close> and
  \<open>img_003\<close>: the planner appends the extension, as the template has no \<open>{ext}\<close>.
\<close>

theorem sequence_counter_counterexample:
  "map_sum id (map (\<lambda>it. (name (src it), name (dst it))))
        (build_plan \<lparr>re_match = (\<lambda>pattern stem. Inr None), path_match = (\<lambda>p g. Inr True),
                      isoformat = (\<lambda>t. Inr ''1970-01-01T00:00:00''), str_lower = lower\<rparr>
           [\<lparr>path_of = \<lparr>parent = ''/d'', name = ''b.jpg''\<rparr>, st_mtime = 3, st_ctime = 3\<rparr>,
            \<lparr>path_of = \<lparr>parent = ''/d'', name = ''a.jpg''\<rparr>, st_mtime = 2, st_ctime = 2\<rparr>,
            \<lparr>path_of = \<lparr>parent = ''/d'', name = ''c.jpg''\<rparr>, st_mtime = 1, st_ctime = 1\<rparr>]
           (default_rules\<lparr>template := ''img_{seq}'', seq_pad := 3\<rparr>))
     = Inr [(''a.jpg'', ''img_001.jpg''), (''b.jpg'', ''img_002.jpg''), (''c.jpg'', ''img_003.jpg'')]
   \<and> ''img_001.jpg'' \<noteq> ''img_001''"
proof -
  let ?ev = "\<lparr>re_match = (\<lambda>pattern stem. Inr None), path_match = (\<lambda>p g. Inr True),
                      isoformat = (\<lambda>t. Inr ''1970-01-01T00:00:00''), str_lower = lower\<rparr>"
  let ?b = "\<lparr>path_of = \<lparr>parent = ''/d'', name = ''b.jpg''\<rparr>, st_mtime = 3, st_ctime = 3\<rparr>"
  let ?a = "\<lparr>path_of = \<lparr>parent = ''/d'', name = ''a.jpg''\<rparr>, st_mtime = 2, st_ctime = 2\<rparr>"
  let ?c = "\<lparr>path_of = \<lparr>parent = ''/d'', name = ''c.jpg''\<rparr>, st_mtime = 1, st_ctime = 1\<rparr>"
  have hyp: "sort_files ?ev [?b, ?a, ?c] ''name'' ''asc'' = [?a, ?b, ?c]
    \<and> (\<forall>p \<in> {?a, ?b, ?c}. name (path_of p) \<noteq> [] \<and> CHR ''/'' \<notin> set (name (path_of p))
           \<and> \<not> startswith (name (path_of p)) ''__tmp_rename__''
           \<and> (\<exists>mt. isoformat ?ev (st_mtime p) = Inr mt)
           \<and> (\<exists>ct. isoformat ?ev (st_ctime p) = Inr ct))"
    by (simp add: sort_demo_jpg startswith_def)
  have sfx: "all_suffixes (path_of ?a) = ''.jpg''" "all_suffixes (path_of ?b) = ''.jpg''"
    "all_suffixes (path_of ?c) = ''.jpg''"
    by (simp_all add: path_ev str_ev)
  have "map_sum id (map (\<lambda>it. (src it, name (dst it))))
        (build_plan ?ev [?b, ?a, ?c] (default_rules\<lparr>template := ''img_{seq}'', seq_pad := 3\<rparr>))
      = Inr [(path_of ?a, ''img_001'' @ ''.jpg''), (path_of ?b, ''img_002'' @ ''.jpg''),
             (path_of ?c, ''img_003'' @ ''.jpg'')]"
    using img_seq_plan [OF hyp] by (simp only: sfx)
  then have "map_sum id (map (\<lambda>it. (name (src it), name (dst it))))
        (build_plan ?ev [?b, ?a, ?c] (default_rules\<lparr>template := ''img_{seq}'', seq_pad := 3\<rparr>))
      = Inr [(''a.jpg'', ''img_001.jpg''), (''b.jpg'', ''img_002.jpg''), (''c.jpg'', ''img_003.jpg'')]"
    by (cases "build_plan ?ev [?b, ?a, ?c] (default_rules\<lparr>template := ''img_{seq}'', seq_pad := 3\<rparr>)")
       auto
  then show ?thesis by simp
qed


section \<open>Properties of the filter\<close>

lemma should_take_exts:
  assumes "exts rules \<noteq> []" "include_globs rules = []" "exclude_globs rules = []"
  shows "should_take ev p rules
         = Inr (\<exists>ext \<in> set (exts rules).
                  endswith (str_lower ev (str_path p)) (str_lower ev ext))"
  using assms by (simp add: should_take_def list_ex_iff)

lemma should_take_ext_needed:
  assumes "exts rules \<noteq> []"
    and "\<not> (\<exists>ext \<in> set (exts rules).
               endswith (str_lower ev (str_path p)) (str_lower ev ext))"
  shows "should_take ev p rules = Inr False"
  using assms by (simp add: should_take_def list_ex_iff)

text \<open>
  C5 as the code has it.  With a non-empty allow-list, a file passes the extension filter
  exactly when its lower-cased path string ends with one of the lower-cased entries: a file
  that \<open>should_take\<close> accepts has such an entry, a file without one is rejected, and with
  no globs configured \<open>should_take\<close> returns exactly that test.  This holds whatever
  \<open>str.lower\<close> does to the path and to the entries.
\<close>

theorem ext_filter_endswith:
  assumes "exts rules \<noteq> []"
  shows "(should_take ev p rules = Inr True \<longrightarrow>
            (\<exists>ext \<in> set (exts rules).
               endswith (str_lower ev (str_path p)) (str_lower ev ext)))
       \<and> (\<not> (\<exists>ext \<in> set (exts rules).
                 endswith (str_lower ev (str_path p)) (str_lower ev ext)) \<longrightarrow>
            should_take ev p rules = Inr False)
       \<and> (include_globs rules = [] \<and> exclude_globs rules = [] \<longrightarrow>
            should_take ev p rules
            = Inr (\<exists>ext \<in> set (exts rules).
                     endswith (str_lower ev (str_path p)) (str_lower ev ext)))"
proof (intro conjI impI)
  assume "should_take ev p rules = Inr True"
  then show "\<exists>ext \<in> set (exts rules). endswith (str_lower ev (str_path p)) (str_lower ev ext)"
    using should_take_ext_needed [OF assms, of ev p] by auto
next
  assume "\<not> (\<exists>ext \<in> set (exts rules).
               endswith (str_lower ev (str_path p)) (str_lower ev ext))"
  then show "should_take ev p rules = Inr False"
    using assms by (rule should_take_ext_needed [rotated])
next
  assume "include_globs rules = [] \<and> exclude_globs rules = []"
  then show "should_take ev p rules
            = Inr (\<exists>ext \<in> set (exts rules).
                     endswith (str_lower ev (str_path p)) (str_lower ev ext))"
    using assms should_take_exts by blast
qed

theorem ext_filter_endswith_witness:
  "exts (default_rules\<lparr>exts := [''.png'', ''.TAR.GZ'']\<rparr>) \<noteq> []
   \<and> endswith (lower (str_path \<lparr>parent = ''/data'', name = ''Archive.tar.gz''\<rparr>)) (lower ''.TAR.GZ'')
   \<and> should_take \<lparr>re_match = (\<lambda>pattern stem. Inr None), path_match = (\<lambda>p g. Inr True),
                    isoformat = (\<lambda>t. Inr ''1970-01-01T00:00:00''), str_lower = lower\<rparr>
         \<lparr>parent = ''/data'', name = ''Archive.tar.gz''\<rparr>
         (default_rules\<lparr>exts := [''.png'', ''.TAR.GZ'']\<rparr>) = Inr True"
  using ext_filter_endswith [of "default_rules\<lparr>exts := [''.png'', ''.TAR.GZ'']\<rparr>"
      "\<lparr>re_match = (\<lambda>pattern stem. Inr None), path_match = (\<lambda>p g. Inr True),
        isoformat = (\<lambda>t. Inr ''1970-01-01T00:00:00''), str_lower = lower\<rparr>"
      "\<lparr>parent = ''/data'', name = ''Archive.tar.gz''\<rparr>"]
  by (simp add: default_rules_def path_ev str_ev)

text \<open>
  The test is \<open>endswith\<close> on the path, not equality with the chain of suffixes:
  \<open>archive.tar.gz\<close> passes the allow-list \<open>.gz\<close>, although its chain of suffixes is
  \<open>.tar.gz\<close>.
\<close>

theorem ext_filter_counterexample:
  "should_take \<lparr>re_match = (\<lambda>pattern stem. Inr None), path_match = (\<lambda>p g. Inr True),
                 isoformat = (\<lambda>t. Inr ''1970-01-01T00:00:00''), str_lower = lower\<rparr>
      \<lparr>parent = ''/data'', name = ''archive.tar.gz''\<rparr> (default_rules\<lparr>exts := [''.gz'']\<rparr>)
    = Inr True
   \<and> all_suffixes \<lparr>parent = ''/data'', name = ''archive.tar.gz''\<rparr> = ''.tar.gz''
   \<and> lower ''.tar.gz'' \<noteq> lower ''.gz''"
  by (simp add: should_take_def default_rules_def path_ev str_ev)

section \<open>Properties of the conflict resolver\<close>

lemma bump_free:
  "bump lw seen stem sep ext n base = Some m \<Longrightarrow>
     n \<le> m \<and> (if m = n then base else lw (suffixed stem sep ext m)) \<notin> set seen"
proof (erule bump.raw_induct [rotated])
  fix f :: "(string \<Rightarrow> string) \<Rightarrow> string list \<Rightarrow> string \<Rightarrow> string \<Rightarrow> string \<Rightarrow> nat \<Rightarrow> string \<Rightarrow> nat option"
  fix lw seen stem sep ext n base m
  assume ih: "\<And>lw seen stem sep ext n base m.
      f lw seen stem sep ext n base = Some m \<Longrightarrow>
      n \<le> m \<and> (if m = n then base else lw (suffixed stem sep ext m)) \<notin> set seen"
  assume st: "(if base \<in> set seen
      then f lw seen stem sep ext (n + 1) (lw (suffixed stem sep ext (n + 1)))
      else Some n) = Some m"
  show "n \<le> m \<and> (if m = n then base else lw (suffixed stem sep ext m)) \<notin> set seen"
  proof (cases "base \<in> set seen")
    case False
    then show ?thesis using st by simp
  next
    case True
    then have "f lw seen stem sep ext (n + 1) (lw (suffixed stem sep ext (n + 1))) = Some m"
      using st by simp
    then have "n + 1 \<le> m
      \<and> (if m = n + 1 then lw (suffixed stem sep ext (n + 1))
            else lw (suffixed stem sep ext m)) \<notin> set seen" by (rule ih)
    then show ?thesis by (auto split: if_splits)
  qed
qed

lemma finite_suffixed_seen:
  assumes "inj (\<lambda>m. lw (suffixed stem sep ext m))"
  shows "finite {m. n < m \<and> lw (suffixed stem sep ext m) \<in> set seen}"
proof -
  have "finite ((\<lambda>m. lw (suffixed stem sep ext m)) -` set seen)"
    using assms by (simp add: finite_vimageI)
  then show ?thesis by (rule rev_finite_subset) auto
qed

lemma bump_returns:
  assumes inj: "inj (\<lambda>m. lw (suffixed stem sep ext m))"
  shows "\<exists>k. bump lw seen stem sep ext n base = Some k"
proof (induction "card {m. n < m \<and> lw (suffixed stem sep ext m) \<in> set seen}"
         arbitrary: n base rule: less_induct)
  case less
  show ?case
  proof (cases "base \<in> set seen")
    case False
    then show ?thesis by (subst bump.simps) simp
  next
    case True
    then have step: "bump lw seen stem sep ext n base
       = bump lw seen stem sep ext (n + 1) (lw (suffixed stem sep ext (n + 1)))"
      by (subst bump.simps) simp
    show ?thesis
    proof (cases "lw (suffixed stem sep ext (n + 1)) \<in> set seen")
      case False
      then have "bump lw seen stem sep ext (n + 1) (lw (suffixed stem sep ext (n + 1)))
                 = Some (n + 1)"
        by (subst bump.simps) simp
      then show ?thesis using step by simp
    next
      case True
      have "{m. n + 1 < m \<and> lw (suffixed stem sep ext m) \<in> set seen}
            \<subset> {m. n < m \<and> lw (suffixed stem sep ext m) \<in> set seen}"
        using True by auto
      then have "card {m. n + 1 < m \<and> lw (suffixed stem sep ext m) \<in> set seen}
            < card {m. n < m \<and> lw (suffixed stem sep ext m) \<in> set seen}"
        using finite_suffixed_seen [OF inj] by (intro psubset_card_mono) auto
      from less [OF this] show ?thesis using step by simp
    qed
  qed
qed

lemma dedupe_loop_unchanged:
  assumes "\<not> changed it"
  shows "dedupe_loop ev rules seen (it # its) = Some (Inr out) \<longleftrightarrow>
     (\<exists>out'. dedupe_loop ev rules seen its = Some (Inr out') \<and> out = it # out')"
  using assms by (auto split: option.splits sum.splits)

lemma dedupe_loop_changed:
  assumes "changed it"
  shows "dedupe_loop ev rules seen (it # its) = Some (Inr out) \<longleftrightarrow>
     (\<exists>n final out'.
        bump (str_lower ev) seen (real_stem (dst it)) (suffix_sep rules) (all_suffixes (dst it))
          0 (str_lower ev (name (dst it))) = Some n
      \<and> (if n = 0 then Inr (dst it)
         else with_name (dst it)
                (suffixed (real_stem (dst it)) (suffix_sep rules) (all_suffixes (dst it)) n))
        = Inr final
      \<and> dedupe_loop ev rules (str_lower ev (name final) # seen) its = Some (Inr out')
      \<and> out = \<lparr>src = src it, dst = final, changed = (name final \<noteq> name (src it)),
                 reason = (if n > 0 then ''dedup-suffix'' else reason it)\<rparr> # out')"
proof (cases "bump (str_lower ev) seen (real_stem (dst it)) (suffix_sep rules)
                (all_suffixes (dst it)) 0 (str_lower ev (name (dst it)))")
  case None
  then show ?thesis using assms by (simp add: Let_def)
next
  case (Some n)
  show ?thesis
  proof (cases "if n = 0 then Inr (dst it)
         else with_name (dst it)
                (suffixed (real_stem (dst it)) (suffix_sep rules) (all_suffixes (dst it)) n)")
    case (Inl e)
    then show ?thesis using assms Some by (simp add: Let_def)
  next
    case (Inr final)
    then show ?thesis using assms Some
      by (cases "dedupe_loop ev rules (str_lower ev (name final) # seen) its")
         (auto simp: Let_def split: sum.splits)
  qed
qed

lemma final_free:
  assumes "bump lw seen stem sep ext 0 (lw (name cand)) = Some n"
    and "(if n = 0 then Inr cand else with_name cand (suffixed stem sep ext n)) = Inr final"
  shows "lw (name final) \<notin> set seen"
proof -
  have f: "(if n = 0 then lw (name cand) else lw (suffixed stem sep ext n)) \<notin> set seen"
    using bump_free [OF assms(1)] by simp
  show ?thesis
  proof (cases "n = 0")
    case True
    then show ?thesis using assms(2) f by simp
  next
    case False
    then have "name final = suffixed stem sep ext n" using assms(2) with_name_name by simp
    then show ?thesis using f False by simp
  qed
qed

lemma dedupe_loop_distinct:
  "dedupe_loop ev rules seen plan = Some (Inr out) \<Longrightarrow>
     length out = length plan
   \<and> distinct (claimed ev plan out)
   \<and> set (claimed ev plan out) \<inter> set seen = {}
   \<and> (\<forall>i < length plan. \<not> changed (plan ! i) \<longrightarrow> out ! i = plan ! i)"
proof (induction plan arbitrary: seen out)
  case Nil
  then show ?case by (simp add: claimed_def)
next
  case (Cons it its)
  show ?case
  proof (cases "changed it")
    case False
    then obtain out' where o: "dedupe_loop ev rules seen its = Some (Inr out')" "out = it # out'"
      using Cons.prems unfolding dedupe_loop_unchanged [OF False] by blast
    have ih: "length out' = length its" "distinct (claimed ev its out')"
      "set (claimed ev its out') \<inter> set seen = {}"
      "\<forall>i < length its. \<not> changed (its ! i) \<longrightarrow> out' ! i = its ! i"
      using Cons.IH [OF o(1)] by simp_all
    have c: "claimed ev (it # its) out = claimed ev its out'"
      using False o(2) by (simp add: claimed_def)
    have "out ! i = (it # its) ! i" if "i < length (it # its)" "\<not> changed ((it # its) ! i)" for i
      using that ih(4) o(2) by (cases i) auto
    then show ?thesis using ih c o(2) by simp
  next
    case True
    from Cons.prems obtain n final out' where
      b: "bump (str_lower ev) seen (real_stem (dst it)) (suffix_sep rules) (all_suffixes (dst it))
            0 (str_lower ev (name (dst it))) = Some n"
      and fin: "(if n = 0 then Inr (dst it)
         else with_name (dst it)
                (suffixed (real_stem (dst it)) (suffix_sep rules) (all_suffixes (dst it)) n))
        = Inr final"
      and rest: "dedupe_loop ev rules (str_lower ev (name final) # seen) its = Some (Inr out')"
      and out: "out = \<lparr>src = src it, dst = final, changed = (name final \<noteq> name (src it)),
                 reason = (if n > 0 then ''dedup-suffix'' else reason it)\<rparr> # out'"
      unfolding dedupe_loop_changed [OF True] by blast
    have free: "str_lower ev (name final) \<notin> set seen" using b fin by (rule final_free)
    have ih: "length out' = length its" "distinct (claimed ev its out')"
      "set (claimed ev its out') \<inter> set (str_lower ev (name final) # seen) = {}"
      "\<forall>i < length its. \<not> changed (its ! i) \<longrightarrow> out' ! i = its ! i"
      using Cons.IH [OF rest] by simp_all
    have c: "claimed ev (it # its) out = str_lower ev (name final) # claimed ev its out'"
      using True out by (simp add: claimed_def)
    have "out ! i = (it # its) ! i" if "i < length (it # its)" "\<not> changed ((it # its) ! i)" for i
      using that ih(4) out True by (cases i) auto
    then show ?thesis using ih(1,2,3) free c out by auto
  qed
qed

lemma dedupe_loop_flag:
  "dedupe_loop ev rules seen plan = Some (Inr out) \<Longrightarrow>
   (\<forall>it \<in> set plan. \<not> changed it \<longrightarrow> changed it = (name (dst it) \<noteq> name (src it))) \<Longrightarrow>
   (\<forall>it \<in> set out. changed it = (name (dst it) \<noteq> name (src it)))"
proof (induction plan arbitrary: seen out)
  case Nil
  then show ?case by simp
next
  case (Cons it its)
  show ?case
  proof (cases "changed it")
    case False
    then obtain out' where o: "dedupe_loop ev rules seen its = Some (Inr out')" "out = it # out'"
      using Cons.prems(1) unfolding dedupe_loop_unchanged [OF False] by blast
    then show ?thesis using Cons.IH [OF o(1)] Cons.prems(2) False by simp
  next
    case True
    from Cons.prems(1) obtain n final out' where
      b: "bump (str_lower ev) seen (real_stem (dst it)) (suffix_sep rules) (all_suffixes (dst it))
            0 (str_lower ev (name (dst it))) = Some n"
      and fin: "(if n = 0 then Inr (dst it)
         else with_name (dst it)
                (suffixed (real_stem (dst it)) (suffix_sep rules) (all_suffixes (dst it)) n))
        = Inr final"
      and rest: "dedupe_loop ev rules (str_lower ev (name final) # seen) its = Some (Inr out')"
      and out: "out = \<lparr>src = src it, dst = final, changed = (name final \<noteq> name (src it)),
                 reason = (if n > 0 then ''dedup-suffix'' else reason it)\<rparr> # out'"
      unfolding dedupe_loop_changed [OF True] by blast
    show ?thesis using Cons.IH [OF rest] Cons.prems(2) out by simp
  qed
qed

lemma str_nat_digits: "c \<in> set (str_nat n) \<Longrightarrow> c \<in> set ''0123456789''"
proof (induction n rule: str_nat.induct)
  case (1 n)
  have d: "digit_char k \<in> set ''0123456789''" if "k < 10" for k
  proof -
    have "k < length ''0123456789''" using that by simp
    then show ?thesis unfolding digit_char_def by (rule nth_mem)
  qed
  show ?case
  proof (cases "n < 10")
    case True
    then have "str_nat n = [digit_char n]" by (subst str_nat.simps) simp
    then show ?thesis using "1.prems" d [OF True] by simp
  next
    case False
    then have s: "str_nat n = str_nat (n div 10) @ [digit_char (n mod 10)]"
      by (subst str_nat.simps) simp
    have "n mod 10 < 10" by simp
    then have "digit_char (n mod 10) \<in> set ''0123456789''" by (rule d)
    then show ?thesis using "1.prems" "1.IH" [OF False] s by auto
  qed
qed

lemma with_name_suffixed:
  assumes "name cand \<noteq> []" "CHR ''/'' \<notin> set (name cand)" "CHR ''/'' \<notin> set sep"
  shows "\<exists>final. with_name cand (suffixed (real_stem cand) sep (all_suffixes cand) n) = Inr final"
proof -
  let ?s = "suffixed (real_stem cand) sep (all_suffixes cand) n"
  obtain c where c: "c \<in> set (str_nat n)" using str_nat_ne [of n] by (cases "str_nat n") auto
  then have cd: "c \<in> set ''0123456789''" by (rule str_nat_digits)
  have cs: "c \<in> set ?s" using c by (simp add: suffixed_def)
  have ne: "?s \<noteq> []" using cs by auto
  have nd: "?s \<noteq> ''.''"
  proof
    assume "?s = ''.''"
    then have "c = CHR ''.''" using cs by simp
    then show False using cd by simp
  qed
  have "set (real_stem cand) \<subseteq> set (name cand)"
    by (auto simp: real_stem_def Let_def dest: in_set_takeD)
  then have s1: "CHR ''/'' \<notin> set (real_stem cand)" using assms(2) by auto
  have s2: "CHR ''/'' \<notin> set (all_suffixes cand)" using assms(2) by (rule not_slash_suffixes)
  have s3: "CHR ''/'' \<notin> set (str_nat n)" using str_nat_digits [of "CHR ''/''" n] by auto
  have ns: "CHR ''/'' \<notin> set ?s" using s1 s2 s3 assms(3) by (simp add: suffixed_def)
  show ?thesis using assms(1) ne nd ns by (simp add: with_name_def)
qed

lemma dedupe_loop_returns:
  assumes "CHR ''/'' \<notin> set (suffix_sep rules)"
  shows "(\<forall>it \<in> set plan. changed it \<longrightarrow>
            name (dst it) \<noteq> [] \<and> CHR ''/'' \<notin> set (name (dst it))
          \<and> inj (\<lambda>m. str_lower ev (suffixed (real_stem (dst it)) (suffix_sep rules)
                                    (all_suffixes (dst it)) m))) \<Longrightarrow>
         \<exists>out. dedupe_loop ev rules seen plan = Some (Inr out)"
proof (induction plan arbitrary: seen)
  case Nil
  then show ?case by simp
next
  case (Cons it its)
  have rest: "\<forall>it \<in> set its. changed it \<longrightarrow>
            name (dst it) \<noteq> [] \<and> CHR ''/'' \<notin> set (name (dst it))
          \<and> inj (\<lambda>m. str_lower ev (suffixed (real_stem (dst it)) (suffix_sep rules)
                                    (all_suffixes (dst it)) m))"
    using Cons.prems by simp
  show ?case
  proof (cases "changed it")
    case False
    obtain out' where "dedupe_loop ev rules seen its = Some (Inr out')"
      using Cons.IH [OF rest] by blast
    then show ?thesis unfolding dedupe_loop_unchanged [OF False] by blast
  next
    case True
    then have v: "name (dst it) \<noteq> []" "CHR ''/'' \<notin> set (name (dst it))"
      and inj: "inj (\<lambda>m. str_lower ev (suffixed (real_stem (dst it)) (suffix_sep rules)
                                    (all_suffixes (dst it)) m))"
      using Cons.prems by simp_all
    obtain n where n: "bump (str_lower ev) seen (real_stem (dst it)) (suffix_sep rules)
          (all_suffixes (dst it)) 0 (str_lower ev (name (dst it))) = Some n"
      using bump_returns [OF inj] by blast
    obtain final where fin: "(if n = 0 then Inr (dst it)
         else with_name (dst it)
                (suffixed (real_stem (dst it)) (suffix_sep rules) (all_suffixes (dst it)) n))
        = Inr final"
      using with_name_suffixed [OF v assms, of n] by (cases "n = 0") auto
    obtain out' where "dedupe_loop ev rules (str_lower ev (name final) # seen) its = Some (Inr out')"
      using Cons.IH [OF rest] by blast
    then show ?thesis unfolding dedupe_loop_changed [OF True] using n fin by blast
  qed
qed

lemma lower_suffixed_inj: "lower (suffixed stem sep ext n) = lower (suffixed stem sep ext m) \<Longrightarrow> n = m"
proof -
  assume e: "lower (suffixed stem sep ext n) = lower (suffixed stem sep ext m)"
  have "length (lower (suffixed stem sep ext n)) = length (lower (suffixed stem sep ext m))"
    using e by simp
  then have l: "length (str_nat n) = length (str_nat m)" by (simp add: suffixed_def lower_def)
  have "lower (str_nat n) = lower (str_nat m)" using e l by (simp add: suffixed_def lower_def)
  moreover have "\<And>k. lower (str_nat k) = str_nat k"
  proof -
    fix k show "lower (str_nat k) = str_nat k"
    proof (induction k rule: str_nat.induct)
      case (1 k)
      note dl = lower_digit_char
      show ?case
      proof (cases "k < 10")
        case True
        then show ?thesis by (subst (1 2) str_nat.simps) (simp add: lower_def dl)
      next
        case False
        then show ?thesis using 1 by (subst (1 2) str_nat.simps) (simp add: lower_def dl)
      qed
    qed
  qed
  ultimately show ?thesis using str_nat_inj by simp
qed

lemma inj_lower_suffixed: "inj (\<lambda>m. lower (suffixed stem sep ext m))"
  by (rule injI) (rule lower_suffixed_inj)

lemma build_plan_flag:
  assumes "build_plan ev files rules = Inr plan"
  shows "\<forall>it \<in> set plan. changed it = (name (dst it) \<noteq> name (src it))"
proof
  fix it assume "it \<in> set plan"
  then obtain i where i: "i < length plan" "plan ! i = it" by (auto simp: in_set_conv_nth)
  let ?sorted = "sort_files ev files (sort_key rules) (sort_order rules)"
  obtain full where full: "build_loop ev rules ?sorted (seq_start rules) = Inr full"
    and plan: "plan = (if preview_limit rules > 0 then take (nat (preview_limit rules)) full else full)"
    using assms by (cases "build_loop ev rules ?sorted (seq_start rules)")
      (auto simp: build_plan_def split: if_splits)
  have "i < length full" "full ! i = it" using i plan by (auto split: if_splits)
  then have "plan_item ev rules (filter (passes ev rules) ?sorted ! i)
               (seq_start rules + int i * seq_step rules) = Inr it"
    using build_loop_seq [OF full] by auto
  then show "changed it = (name (dst it) \<noteq> name (src it))"
    unfolding plan_item_Inr by (auto dest: with_name_name)
qed

text \<open>
  C2 as the code has it.  Under the auto-suffix policy the items that were marked as
  changed in the plan get destinations whose lower-cased names are pairwise different;
  an item that was not marked as changed passes through as it is, and its destination is
  not compared with any other.  The resolver returns a plan of the same length whenever
  the separator holds no slash, the destinations of the changed items are valid names and
  lower-casing keeps the names tried for one item apart (as \<open>str.lower\<close> does, the
  counter being made of digits).
\<close>

theorem dedupe_changed_distinct:
  assumes "conflict rules = ''suffix''"
  shows "(dedupe ev plan rules = Some (Inr out) \<longrightarrow>
            length out = length plan
          \<and> distinct (claimed ev plan out)
          \<and> (\<forall>i < length plan. \<not> changed (plan ! i) \<longrightarrow> out ! i = plan ! i))
       \<and> (CHR ''/'' \<notin> set (suffix_sep rules)
          \<and> (\<forall>it \<in> set plan. changed it \<longrightarrow>
                 name (dst it) \<noteq> [] \<and> CHR ''/'' \<notin> set (name (dst it))
               \<and> inj (\<lambda>m. str_lower ev (suffixed (real_stem (dst it)) (suffix_sep rules)
                                         (all_suffixes (dst it)) m))) \<longrightarrow>
            (\<exists>out'. dedupe ev plan rules = Some (Inr out')))"
proof (intro conjI impI)
  assume "dedupe ev plan rules = Some (Inr out)"
  then have d: "dedupe_loop ev rules [] plan = Some (Inr out)"
    using assms by (simp add: dedupe_def)
  show "length out = length plan" using dedupe_loop_distinct [OF d] by simp
  show "distinct (claimed ev plan out)" using dedupe_loop_distinct [OF d] by simp
  show "\<forall>i < length plan. \<not> changed (plan ! i) \<longrightarrow> out ! i = plan ! i"
    using dedupe_loop_distinct [OF d] by simp
next
  assume h: "CHR ''/'' \<notin> set (suffix_sep rules)
          \<and> (\<forall>it \<in> set plan. changed it \<longrightarrow>
                 name (dst it) \<noteq> [] \<and> CHR ''/'' \<notin> set (name (dst it))
               \<and> inj (\<lambda>m. str_lower ev (suffixed (real_stem (dst it)) (suffix_sep rules)
                                         (all_suffixes (dst it)) m)))"
  then have "\<exists>out'. dedupe_loop ev rules [] plan = Some (Inr out')"
    using dedupe_loop_returns [of rules plan ev "[]"] by blast
  then show "\<exists>out'. dedupe ev plan rules = Some (Inr out')"
    using assms by (simp add: dedupe_def)
qed

lemmas dedupe_ev = dedupe_def bump.simps suffixed_def str_nat.simps digit_char_def Let_def

theorem dedupe_changed_distinct_witness:
  "conflict (default_rules\<lparr>conflict := ''suffix''\<rparr>) = ''suffix''
   \<and> dedupe \<lparr>re_match = (\<lambda>pattern stem. Inr None), path_match = (\<lambda>p g. Inr True),
               isoformat = (\<lambda>t. Inr ''1970-01-01T00:00:00''), str_lower = lower\<rparr>
        [\<lparr>src = \<lparr>parent = ''/d'', name = ''x.txt''\<rparr>, dst = \<lparr>parent = ''/d'', name = ''a.txt''\<rparr>,
          changed = True, reason = ''ok''\<rparr>,
         \<lparr>src = \<lparr>parent = ''/d'', name = ''y.txt''\<rparr>, dst = \<lparr>parent = ''/d'', name = ''A.txt''\<rparr>,
          changed = True, reason = ''ok''\<rparr>,
         \<lparr>src = \<lparr>parent = ''/d'', name = ''z.txt''\<rparr>, dst = \<lparr>parent = ''/d'', name = ''a.txt''\<rparr>,
          changed = True, reason = ''ok''\<rparr>]
        (default_rules\<lparr>conflict := ''suffix''\<rparr>)
      = Some (Inr
        [\<lparr>src = \<lparr>parent = ''/d'', name = ''x.txt''\<rparr>, dst = \<lparr>parent = ''/d'', name = ''a.txt''\<rparr>,
          changed = True, reason = ''ok''\<rparr>,
         \<lparr>src = \<lparr>parent = ''/d'', name = ''y.txt''\<rparr>, dst = \<lparr>parent = ''/d'', name = ''A_1.txt''\<rparr>,
          changed = True, reason = ''dedup-suffix''\<rparr>,
         \<lparr>src = \<lparr>parent = ''/d'', name = ''z.txt''\<rparr>, dst = \<lparr>parent = ''/d'', name = ''a_2.txt''\<rparr>,
          changed = True, reason = ''dedup-suffix''\<rparr>])
   \<and> distinct [''a.txt'', ''a_1.txt'', ''a_2.txt'']"
  using dedupe_changed_distinct [of "default_rules\<lparr>conflict := ''suffix''\<rparr>"
      "\<lparr>re_match = (\<lambda>pattern stem. Inr None), path_match = (\<lambda>p g. Inr True),
        isoformat = (\<lambda>t. Inr ''1970-01-01T00:00:00''), str_lower = lower\<rparr>"]
  by (simp add: default_rules_def dedupe_ev path_ev str_ev)

text \<open>
  An item that is not marked as changed claims no name: when \<open>a.txt\<close> keeps its name and
  \<open>b.txt\<close> is renamed to \<open>a.txt\<close>, as the template \<open>a\<close> plans, both items of the resolved
  plan have the destination \<open>a.txt\<close>.
\<close>

theorem dedupe_counterexample:
  "build_plan \<lparr>re_match = (\<lambda>pattern stem. Inr None), path_match = (\<lambda>p g. Inr True),
               isoformat = (\<lambda>t. Inr ''1970-01-01T00:00:00''), str_lower = lower\<rparr>
     [\<lparr>path_of = \<lparr>parent = ''/d'', name = ''a.txt''\<rparr>, st_mtime = 1, st_ctime = 1\<rparr>,
      \<lparr>path_of = \<lparr>parent = ''/d'', name = ''b.txt''\<rparr>, st_mtime = 2, st_ctime = 2\<rparr>]
     (default_rules\<lparr>template := ''a'', conflict := ''suffix''\<rparr>)
   = Inr [\<lparr>src = \<lparr>parent = ''/d'', name = ''a.txt''\<rparr>, dst = \<lparr>parent = ''/d'', name = ''a.txt''\<rparr>,
           changed = False, reason = ''no-change''\<rparr>,
          \<lparr>src = \<lparr>parent = ''/d'', name = ''b.txt''\<rparr>, dst = \<lparr>parent = ''/d'', name = ''a.txt''\<rparr>,
           changed = True, reason = ''ok''\<rparr>]
   \<and> dedupe \<lparr>re_match = (\<lambda>pattern stem. Inr None), path_match = (\<lambda>p g. Inr True),
               isoformat = (\<lambda>t. Inr ''1970-01-01T00:00:00''), str_lower = lower\<rparr>
        [\<lparr>src = \<lparr>parent = ''/d'', name = ''a.txt''\<rparr>, dst = \<lparr>parent = ''/d'', name = ''a.txt''\<rparr>,
          changed = False, reason = ''no-change''\<rparr>,
         \<lparr>src = \<lparr>parent = ''/d'', name = ''b.txt''\<rparr>, dst = \<lparr>parent = ''/d'', name = ''a.txt''\<rparr>,
          changed = True, reason = ''ok''\<rparr>]
        (default_rules\<lparr>template := ''a'', conflict := ''suffix''\<rparr>)
      = Some (Inr
        [\<lparr>src = \<lparr>parent = ''/d'', name = ''a.txt''\<rparr>, dst = \<lparr>parent = ''/d'', name = ''a.txt''\<rparr>,
          changed = False, reason = ''no-change''\<rparr>,
         \<lparr>src = \<lparr>parent = ''/d'', name = ''b.txt''\<rparr>, dst = \<lparr>parent = ''/d'', name = ''a.txt''\<rparr>,
          changed = True, reason = ''ok''\<rparr>])"
proof -
  have s: "sort_files \<lparr>re_match = (\<lambda>pattern stem. Inr None), path_match = (\<lambda>p g. Inr True),
               isoformat = (\<lambda>t. Inr ''1970-01-01T00:00:00''), str_lower = lower\<rparr>
     [\<lparr>path_of = \<lparr>parent = ''/d'', name = ''a.txt''\<rparr>, st_mtime = 1, st_ctime = 1\<rparr>,
      \<lparr>path_of = \<lparr>parent = ''/d'', name = ''b.txt''\<rparr>, st_mtime = 2, st_ctime = 2\<rparr>]
     ''name'' ''asc''
    = [\<lparr>path_of = \<lparr>parent = ''/d'', name = ''a.txt''\<rparr>, st_mtime = 1, st_ctime = 1\<rparr>,
      \<lparr>path_of = \<lparr>parent = ''/d'', name = ''b.txt''\<rparr>, st_mtime = 2, st_ctime = 2\<rparr>]"
    by (simp add: sort_files_def sorted_py_def lower_def lower_char_def less_eq_char_def)
  show ?thesis
    by (simp add: build_plan_def s should_take_def plan_ev path_ev default_rules_def str_ev tpl_ev
          dedupe_def bump.simps suffixed_def)
qed

lemma build_plan_returns:
  assumes "\<forall>p \<in> set files. startswith (name (path_of p)) ''__tmp_rename__''
             \<or> (\<exists>b. should_take ev (path_of p) rules = Inr b)"
    and "\<forall>i < length (filter (passes ev rules)
                       (sort_files ev files (sort_key rules) (sort_order rules))).
          \<exists>it. plan_item ev rules
                 (filter (passes ev rules)
                    (sort_files ev files (sort_key rules) (sort_order rules)) ! i)
                 (seq_start rules + int i * seq_step rules) = Inr it"
  shows "\<exists>plan. build_plan ev files rules = Inr plan"
proof -
  let ?sorted = "sort_files ev files (sort_key rules) (sort_order rules)"
  have "\<forall>p \<in> set ?sorted. startswith (name (path_of p)) ''__tmp_rename__''
          \<or> (\<exists>b. should_take ev (path_of p) rules = Inr b)"
    using assms(1) by (simp add: set_sort_files)
  then obtain full where "build_loop ev rules ?sorted (seq_start rules) = Inr full"
    using assms(2) build_loop_returns [of ?sorted ev rules "seq_start rules"] by blast
  then show ?thesis by (simp add: build_plan_def)
qed

text \<open>
  C10.  The flag \<open>changed\<close> of a plan item says whether the name of its destination
  differs from the name of its source: for the item the loop body of the builder makes, for
  every item of a plan the builder returns, and for every item of what the resolver
  returns for that plan, under either policy (for any plan whose unchanged items have
  equal names, in fact).  Under the policy \<open>skip\<close> the resolver returns the plan as it
  is; under the policy \<open>suffix\<close> it returns a plan whenever the separator holds no
  slash, the destinations of the changed items are valid names and lower-casing keeps the
  names tried for one item apart.  The loop body of the builder returns an item whenever
  the variables are built, the rendering returns and \<open>with_name\<close> accepts the name, and
  the builder returns a plan whenever the filters raise for no file and the loop body
  returns for each passing file.
\<close>

theorem changed_flag:
  "(plan_item ev rules p seq_value = Inr it \<longrightarrow>
      changed it = (name (dst it) \<noteq> name (src it)))
 \<and> (build_plan ev files rules = Inr plan \<longrightarrow>
      (\<forall>it \<in> set plan. changed it = (name (dst it) \<noteq> name (src it))))
 \<and> (build_plan ev files rules = Inr plan \<and> dedupe ev plan rules = Some (Inr out) \<longrightarrow>
      (\<forall>it \<in> set out. changed it = (name (dst it) \<noteq> name (src it))))
 \<and> ((\<forall>it \<in> set plan'. \<not> changed it \<longrightarrow> name (dst it) = name (src it))
      \<and> conflict rules = ''suffix'' \<and> dedupe ev plan' rules = Some (Inr out') \<longrightarrow>
      (\<forall>it \<in> set out'. changed it = (name (dst it) \<noteq> name (src it))))
 \<and> (conflict rules \<noteq> ''suffix'' \<longrightarrow> dedupe ev plan' rules = Some (Inr plan'))
 \<and> (conflict rules = ''suffix'' \<and> CHR ''/'' \<notin> set (suffix_sep rules)
      \<and> (\<forall>it \<in> set plan'. changed it \<longrightarrow>
             name (dst it) \<noteq> [] \<and> CHR ''/'' \<notin> set (name (dst it))
           \<and> inj (\<lambda>m. str_lower ev (suffixed (real_stem (dst it)) (suffix_sep rules)
                                     (all_suffixes (dst it)) m))) \<longrightarrow>
      (\<exists>res. dedupe ev plan' rules = Some (Inr res)))
 \<and> (make_vars ev rules p seq_value = Inr vm
      \<and> render_template (template rules) vm
           (split_segments (real_stem (path_of p)) (delimiter rules)) (slice_joiner rules)
          = Inr ns
      \<and> with_name (path_of p)
           (if contains (template rules) ''{ext}'' then ns
            else ns @ all_suffixes (path_of p)) = Inr d \<longrightarrow>
      (\<exists>it'. plan_item ev rules p seq_value = Inr it'))
 \<and> ((\<forall>p \<in> set files. startswith (name (path_of p)) ''__tmp_rename__''
          \<or> (\<exists>b. should_take ev (path_of p) rules = Inr b))
      \<and> (\<forall>i < length (filter (passes ev rules)
                         (sort_files ev files (sort_key rules) (sort_order rules))).
            \<exists>it. plan_item ev rules
                   (filter (passes ev rules)
                      (sort_files ev files (sort_key rules) (sort_order rules)) ! i)
                   (seq_start rules + int i * seq_step rules) = Inr it) \<longrightarrow>
      (\<exists>res. build_plan ev files rules = Inr res))"
proof (intro conjI impI)
  assume "make_vars ev rules p seq_value = Inr vm
      \<and> render_template (template rules) vm
           (split_segments (real_stem (path_of p)) (delimiter rules)) (slice_joiner rules)
          = Inr ns
      \<and> with_name (path_of p)
           (if contains (template rules) ''{ext}'' then ns
            else ns @ all_suffixes (path_of p)) = Inr d"
  then show "\<exists>it'. plan_item ev rules p seq_value = Inr it'"
    unfolding plan_item_Inr by blast
next
  assume "(\<forall>p \<in> set files. startswith (name (path_of p)) ''__tmp_rename__''
          \<or> (\<exists>b. should_take ev (path_of p) rules = Inr b))
      \<and> (\<forall>i < length (filter (passes ev rules)
                         (sort_files ev files (sort_key rules) (sort_order rules))).
            \<exists>it. plan_item ev rules
                   (filter (passes ev rules)
                      (sort_files ev files (sort_key rules) (sort_order rules)) ! i)
                   (seq_start rules + int i * seq_step rules) = Inr it)"
  then show "\<exists>res. build_plan ev files rules = Inr res"
    using build_plan_returns [of files ev rules] by blast
next
  assume "plan_item ev rules p seq_value = Inr it"
  then show "changed it = (name (dst it) \<noteq> name (src it))"
    unfolding plan_item_Inr by (auto dest: with_name_name)
next
  assume "build_plan ev files rules = Inr plan"
  then show "\<forall>it \<in> set plan. changed it = (name (dst it) \<noteq> name (src it))"
    by (rule build_plan_flag)
next
  assume h: "build_plan ev files rules = Inr plan \<and> dedupe ev plan rules = Some (Inr out)"
  then have inv: "\<forall>it \<in> set plan. changed it = (name (dst it) \<noteq> name (src it))"
    using build_plan_flag by blast
  show "\<forall>it \<in> set out. changed it = (name (dst it) \<noteq> name (src it))"
  proof (cases "conflict rules = ''suffix''")
    case True
    then have "dedupe_loop ev rules [] plan = Some (Inr out)" using h by (simp add: dedupe_def)
    then show ?thesis using inv by (intro dedupe_loop_flag) auto
  next
    case False
    then have "out = plan" using h by (simp add: dedupe_def)
    then show ?thesis using inv by simp
  qed
next
  assume h: "(\<forall>it \<in> set plan'. \<not> changed it \<longrightarrow> name (dst it) = name (src it))
      \<and> conflict rules = ''suffix'' \<and> dedupe ev plan' rules = Some (Inr out')"
  then have c: "conflict rules = ''suffix''" and d: "dedupe ev plan' rules = Some (Inr out')"
    by blast+
  have "dedupe_loop ev rules [] plan' = Some (Inr out')" using d c by (simp add: dedupe_def)
  then show "\<forall>it \<in> set out'. changed it = (name (dst it) \<noteq> name (src it))"
    using h by (intro dedupe_loop_flag) auto
next
  assume "conflict rules \<noteq> ''suffix''"
  then show "dedupe ev plan' rules = Some (Inr plan')" by (simp add: dedupe_def)
next
  assume h: "conflict rules = ''suffix'' \<and> CHR ''/'' \<notin> set (suffix_sep rules)
      \<and> (\<forall>it \<in> set plan'. changed it \<longrightarrow>
             name (dst it) \<noteq> [] \<and> CHR ''/'' \<notin> set (name (dst it))
           \<and> inj (\<lambda>m. str_lower ev (suffixed (real_stem (dst it)) (suffix_sep rules)
                                     (all_suffixes (dst it)) m)))"
  then have c: "conflict rules = ''suffix''" by blast
  have "\<exists>res. dedupe_loop ev rules [] plan' = Some (Inr res)"
    using h dedupe_loop_returns [of rules plan' ev "[]"] by blast
  then show "\<exists>res. dedupe ev plan' rules = Some (Inr res)"
    using c by (simp add: dedupe_def)
qed

theorem changed_flag_witness:
  "conflict (default_rules\<lparr>conflict := ''suffix''\<rparr>) = ''suffix''
   \<and> dedupe \<lparr>re_match = (\<lambda>pattern stem. Inr None), path_match = (\<lambda>p g. Inr True),
               isoformat = (\<lambda>t. Inr ''1970-01-01T00:00:00''), str_lower = lower\<rparr>
        [\<lparr>src = \<lparr>parent = ''/d'', name = ''b.txt''\<rparr>, dst = \<lparr>parent = ''/d'', name = ''a.txt''\<rparr>,
          changed = True, reason = ''ok''\<rparr>,
         \<lparr>src = \<lparr>parent = ''/d'', name = ''a_1.txt''\<rparr>, dst = \<lparr>parent = ''/d'', name = ''a.txt''\<rparr>,
          changed = True, reason = ''ok''\<rparr>]
        (default_rules\<lparr>conflict := ''suffix''\<rparr>)
      = Some (Inr
        [\<lparr>src = \<lparr>parent = ''/d'', name = ''b.txt''\<rparr>, dst = \<lparr>parent = ''/d'', name = ''a.txt''\<rparr>,
          changed = True, reason = ''ok''\<rparr>,
         \<lparr>src = \<lparr>parent = ''/d'', name = ''a_1.txt''\<rparr>,
          dst = \<lparr>parent = ''/d'', name = ''a_1.txt''\<rparr>,
          changed = False, reason = ''dedup-suffix''\<rparr>])"
  using changed_flag [of _ "default_rules\<lparr>conflict := ''suffix''\<rparr>"]
  by (simp add: default_rules_def dedupe_ev path_ev str_ev)

section \<open>Properties of the executor\<close>

lemmas exec_ev = two_phase_rename_def exists_path_def rename_def with_name_def to_apply_of_def

text \<open>
  C1 as the code has it.  In a directory that holds exactly \<open>A.txt\<close> and \<open>B.txt\<close>, a plan
  that swaps the two names is not carried out: phase 1 looks at each destination before
  any file has been moved, finds it, and skips the item.  Both items are skipped, nothing
  is renamed and nothing is lost, the log holds the two skips and no failure.  The template
  \<open>{stem|replace=A:X|replace=B:A|replace=X:B}\<close> plans this swap, the resolver leaves the plan
  as it is, and both items are handed to the executor.
\<close>

theorem swap_is_skipped:
  "two_phase_rename token
     [\<lparr>parent = dir, name = ''A.txt''\<rparr> \<mapsto> content_a, \<lparr>parent = dir, name = ''B.txt''\<rparr> \<mapsto> content_b]
     [\<lparr>src = \<lparr>parent = dir, name = ''A.txt''\<rparr>, dst = \<lparr>parent = dir, name = ''B.txt''\<rparr>,
       changed = True, reason = ''ok''\<rparr>,
      \<lparr>src = \<lparr>parent = dir, name = ''B.txt''\<rparr>, dst = \<lparr>parent = dir, name = ''A.txt''\<rparr>,
       changed = True, reason = ''ok''\<rparr>]
   = Inr \<lparr>tree_now = [\<lparr>parent = dir, name = ''A.txt''\<rparr> \<mapsto> content_a,
                       \<lparr>parent = dir, name = ''B.txt''\<rparr> \<mapsto> content_b],
          temp_pairs = [],
          logs = [SkipExists ''A.txt'' ''B.txt'', SkipExists ''B.txt'' ''A.txt''],
          ok = 0, skipped = 2\<rparr>
 \<and> build_plan \<lparr>re_match = (\<lambda>pattern stem. Inr None), path_match = (\<lambda>p g. Inr True),
               isoformat = (\<lambda>t. Inr ''1970-01-01T00:00:00''), str_lower = lower\<rparr>
     [\<lparr>path_of = \<lparr>parent = dir, name = ''A.txt''\<rparr>, st_mtime = 1, st_ctime = 1\<rparr>,
      \<lparr>path_of = \<lparr>parent = dir, name = ''B.txt''\<rparr>, st_mtime = 2, st_ctime = 2\<rparr>]
     (default_rules\<lparr>template := ''{stem|replace=A:X|replace=B:A|replace=X:B}''\<rparr>)
   = Inr [\<lparr>src = \<lparr>parent = dir, name = ''A.txt''\<rparr>, dst = \<lparr>parent = dir, name = ''B.txt''\<rparr>,
           changed = True, reason = ''ok''\<rparr>,
          \<lparr>src = \<lparr>parent = dir, name = ''B.txt''\<rparr>, dst = \<lparr>parent = dir, name = ''A.txt''\<rparr>,
           changed = True, reason = ''ok''\<rparr>]
 \<and> dedupe ev
     [\<lparr>src = \<lparr>parent = dir, name = ''A.txt''\<rparr>, dst = \<lparr>parent = dir, name = ''B.txt''\<rparr>,
       changed = True, reason = ''ok''\<rparr>,
      \<lparr>src = \<lparr>parent = dir, name = ''B.txt''\<rparr>, dst = \<lparr>parent = dir, name = ''A.txt''\<rparr>,
       changed = True, reason = ''ok''\<rparr>]
     (default_rules\<lparr>template := ''{stem|replace=A:X|replace=B:A|replace=X:B}''\<rparr>)
   = Some (Inr
       [\<lparr>src = \<lparr>parent = dir, name = ''A.txt''\<rparr>, dst = \<lparr>parent = dir, name = ''B.txt''\<rparr>,
         changed = True, reason = ''ok''\<rparr>,
        \<lparr>src = \<lparr>parent = dir, name = ''B.txt''\<rparr>, dst = \<lparr>parent = dir, name = ''A.txt''\<rparr>,
         changed = True, reason = ''ok''\<rparr>])
 \<and> to_apply_of
     [\<lparr>src = \<lparr>parent = dir, name = ''A.txt''\<rparr>, dst = \<lparr>parent = dir, name = ''B.txt''\<rparr>,
       changed = True, reason = ''ok''\<rparr>,
      \<lparr>src = \<lparr>parent = dir, name = ''B.txt''\<rparr>, dst = \<lparr>parent = dir, name = ''A.txt''\<rparr>,
       changed = True, reason = ''ok''\<rparr>]
   = [\<lparr>src = \<lparr>parent = dir, name = ''A.txt''\<rparr>, dst = \<lparr>parent = dir, name = ''B.txt''\<rparr>,
       changed = True, reason = ''ok''\<rparr>,
      \<lparr>src = \<lparr>parent = dir, name = ''B.txt''\<rparr>, dst = \<lparr>parent = dir, name = ''A.txt''\<rparr>,
       changed = True, reason = ''ok''\<rparr>]"
proof (intro conjI)
  show "two_phase_rename token
     [\<lparr>parent = dir, name = ''A.txt''\<rparr> \<mapsto> content_a, \<lparr>parent = dir, name = ''B.txt''\<rparr> \<mapsto> content_b]
     [\<lparr>src = \<lparr>parent = dir, name = ''A.txt''\<rparr>, dst = \<lparr>parent = dir, name = ''B.txt''\<rparr>,
       changed = True, reason = ''ok''\<rparr>,
      \<lparr>src = \<lparr>parent = dir, name = ''B.txt''\<rparr>, dst = \<lparr>parent = dir, name = ''A.txt''\<rparr>,
       changed = True, reason = ''ok''\<rparr>]
   = Inr \<lparr>tree_now = [\<lparr>parent = dir, name = ''A.txt''\<rparr> \<mapsto> content_a,
                       \<lparr>parent = dir, name = ''B.txt''\<rparr> \<mapsto> content_b],
          temp_pairs = [],
          logs = [SkipExists ''A.txt'' ''B.txt'', SkipExists ''B.txt'' ''A.txt''],
          ok = 0, skipped = 2\<rparr>"
    by (simp add: exec_ev)
next
  have s: "sort_files \<lparr>re_match = (\<lambda>pattern stem. Inr None), path_match = (\<lambda>p g. Inr True),
               isoformat = (\<lambda>t. Inr ''1970-01-01T00:00:00''), str_lower = lower\<rparr>
     [\<lparr>path_of = \<lparr>parent = dir, name = ''A.txt''\<rparr>, st_mtime = 1, st_ctime = 1\<rparr>,
      \<lparr>path_of = \<lparr>parent = dir, name = ''B.txt''\<rparr>, st_mtime = 2, st_ctime = 2\<rparr>]
     ''name'' ''asc''
    = [\<lparr>path_of = \<lparr>parent = dir, name = ''A.txt''\<rparr>, st_mtime = 1, st_ctime = 1\<rparr>,
      \<lparr>path_of = \<lparr>parent = dir, name = ''B.txt''\<rparr>, st_mtime = 2, st_ctime = 2\<rparr>]"
    by (simp add: sort_files_def sorted_py_def lower_def lower_char_def less_eq_char_def)
  show "build_plan \<lparr>re_match = (\<lambda>pattern stem. Inr None), path_match = (\<lambda>p g. Inr True),
               isoformat = (\<lambda>t. Inr ''1970-01-01T00:00:00''), str_lower = lower\<rparr>
     [\<lparr>path_of = \<lparr>parent = dir, name = ''A.txt''\<rparr>, st_mtime = 1, st_ctime = 1\<rparr>,
      \<lparr>path_of = \<lparr>parent = dir, name = ''B.txt''\<rparr>, st_mtime = 2, st_ctime = 2\<rparr>]
     (default_rules\<lparr>template := ''{stem|replace=A:X|replace=B:A|replace=X:B}''\<rparr>)
   = Inr [\<lparr>src = \<lparr>parent = dir, name = ''A.txt''\<rparr>, dst = \<lparr>parent = dir, name = ''B.txt''\<rparr>,
           changed = True, reason = ''ok''\<rparr>,
          \<lparr>src = \<lparr>parent = dir, name = ''B.txt''\<rparr>, dst = \<lparr>parent = dir, name = ''A.txt''\<rparr>,
           changed = True, reason = ''ok''\<rparr>]"
    by (simp add: build_plan_def s should_take_def plan_ev path_ev default_rules_def str_ev tpl_ev)
next
  show "dedupe ev
     [\<lparr>src = \<lparr>parent = dir, name = ''A.txt''\<rparr>, dst = \<lparr>parent = dir, name = ''B.txt''\<rparr>,
       changed = True, reason = ''ok''\<rparr>,
      \<lparr>src = \<lparr>parent = dir, name = ''B.txt''\<rparr>, dst = \<lparr>parent = dir, name = ''A.txt''\<rparr>,
       changed = True, reason = ''ok''\<rparr>]
     (default_rules\<lparr>template := ''{stem|replace=A:X|replace=B:A|replace=X:B}''\<rparr>)
   = Some (Inr
       [\<lparr>src = \<lparr>parent = dir, name = ''A.txt''\<rparr>, dst = \<lparr>parent = dir, name = ''B.txt''\<rparr>,
         changed = True, reason = ''ok''\<rparr>,
        \<lparr>src = \<lparr>parent = dir, name = ''B.txt''\<rparr>, dst = \<lparr>parent = dir, name = ''A.txt''\<rparr>,
         changed = True, reason = ''ok''\<rparr>])"
    by (simp add: dedupe_def default_rules_def)
next
  show "to_apply_of
     [\<lparr>src = \<lparr>parent = dir, name = ''A.txt''\<rparr>, dst = \<lparr>parent = dir, name = ''B.txt''\<rparr>,
       changed = True, reason = ''ok''\<rparr>,
      \<lparr>src = \<lparr>parent = dir, name = ''B.txt''\<rparr>, dst = \<lparr>parent = dir, name = ''A.txt''\<rparr>,
       changed = True, reason = ''ok''\<rparr>]
   = [\<lparr>src = \<lparr>parent = dir, name = ''A.txt''\<rparr>, dst = \<lparr>parent = dir, name = ''B.txt''\<rparr>,
       changed = True, reason = ''ok''\<rparr>,
      \<lparr>src = \<lparr>parent = dir, name = ''B.txt''\<rparr>, dst = \<lparr>parent = dir, name = ''A.txt''\<rparr>,
       changed = True, reason = ''ok''\<rparr>]"
    by (simp add: to_apply_of_def)
qed

text \<open>
  The swap does not happen: after the run \<open>A.txt\<close> still holds its own content, no item
  succeeded and two were skipped.
\<close>

theorem swap_counterexample:
  "map_sum id (\<lambda>st. (ok st, skipped st,
                     tree_now st \<lparr>parent = ''/d'', name = ''A.txt''\<rparr>,
                     tree_now st \<lparr>parent = ''/d'', name = ''B.txt''\<rparr>))
     (two_phase_rename ''0123abcd''
        [\<lparr>parent = ''/d'', name = ''A.txt''\<rparr> \<mapsto> ''alpha'',
         \<lparr>parent = ''/d'', name = ''B.txt''\<rparr> \<mapsto> ''beta'']
        [\<lparr>src = \<lparr>parent = ''/d'', name = ''A.txt''\<rparr>, dst = \<lparr>parent = ''/d'', name = ''B.txt''\<rparr>,
          changed = True, reason = ''ok''\<rparr>,
         \<lparr>src = \<lparr>parent = ''/d'', name = ''B.txt''\<rparr>, dst = \<lparr>parent = ''/d'', name = ''A.txt''\<rparr>,
          changed = True, reason = ''ok''\<rparr>])
   = Inr (0, 2, Some ''alpha'', Some ''beta'')"
  by (simp add: exec_ev)

text \<open>The executor does carry out a rename whose destination is free, through the
  temporary name.\<close>

lemma rename_through_temporary:
  "two_phase_rename ''0123abcd''
     [\<lparr>parent = ''/d'', name = ''A.txt''\<rparr> \<mapsto> ''alpha'']
     [\<lparr>src = \<lparr>parent = ''/d'', name = ''A.txt''\<rparr>, dst = \<lparr>parent = ''/d'', name = ''C.txt''\<rparr>,
       changed = True, reason = ''ok''\<rparr>]
   = Inr \<lparr>tree_now = [\<lparr>parent = ''/d'', name = ''C.txt''\<rparr> \<mapsto> ''alpha''],
          temp_pairs = [(\<lparr>parent = ''/d'', name = ''__tmp_rename__0123abcd__A.txt''\<rparr>,
                         \<lparr>parent = ''/d'', name = ''C.txt''\<rparr>)],
          logs = [Done ''A.txt'' ''C.txt''], ok = 1, skipped = 0\<rparr>"
  by (simp add: exec_ev fun_upd_twist)


end
